theory Spec2Isabelle
  imports Main "HOL-Library.Multiset"
begin

section \<open>The PVL encoder of \<open>pvl/encoder.py\<close> and the driver of \<open>pvl/pvl_validate.py\<close>\<close>

subsection \<open>Text, bytes and exceptions\<close>

text \<open>
  A Python \<open>bytes\<close> value is a list of 8-bit characters, which is what \<open>string\<close> is in HOL.
  A Python 3 \<open>str\<close> is a sequence of Unicode code points: \<open>len\<close> counts code points, and
  \<open>encode('utf-8')\<close> turns it into bytes, one to four for each code point.
\<close>

type_synonym bytes = string
type_synonym pystr = "nat list"

text \<open>
  The exceptions that the two modules raise, let through or catch. \<open>UnicodeEncodeError\<close> is a
  subclass of \<open>ValueError\<close> in Python; \<open>OtherError\<close> stands for an exception of any other
  class, raised by a collaborator that is not part of the two modules.
\<close>

datatype error =
    TypeError pystr
  | ValueError
  | UnicodeEncodeError
  | AttributeError
  | LexerError
  | ParseError
  | OtherError

definition ascii :: "string \<Rightarrow> pystr" where
  "ascii s = map of_char s"

definition utf8_char :: "nat \<Rightarrow> error + bytes" where
  "utf8_char c =
     (if c < 0x80 then Inr [char_of c]
      else if c < 0x800 then Inr [char_of (0xC0 + c div 0x40), char_of (0x80 + c mod 0x40)]
      else if 0xD800 \<le> c \<and> c < 0xE000 then Inl UnicodeEncodeError
      else if c < 0x10000 then
        Inr [char_of (0xE0 + c div 0x1000), char_of (0x80 + (c div 0x40) mod 0x40),
             char_of (0x80 + c mod 0x40)]
      else
        Inr [char_of (0xF0 + c div 0x40000), char_of (0x80 + (c div 0x1000) mod 0x40),
             char_of (0x80 + (c div 0x40) mod 0x40), char_of (0x80 + c mod 0x40)])"

text \<open>\<open>value.encode('utf-8')\<close>: the bytes of every code point in turn, or the first failure.\<close>

fun utf8_encode :: "pystr \<Rightarrow> error + bytes" where
  "utf8_encode [] = Inr []"
| "utf8_encode (c # cs) =
     (case utf8_char c of
        Inl e \<Rightarrow> Inl e
      | Inr bs \<Rightarrow> (case utf8_encode cs of Inl e \<Rightarrow> Inl e | Inr rest \<Rightarrow> Inr (bs @ rest)))"

text \<open>
  \<open>str(n)\<close> of an integer: its decimal digits, with a minus sign when negative. The limit
  that newer interpreters put on the number of digits of such a conversion is not modelled.
\<close>

definition digit :: "nat \<Rightarrow> char" where
  "digit n = ''0123456789'' ! n"

fun str_nat :: "nat \<Rightarrow> bytes" where
  "str_nat n = (if n < 10 then [digit n] else str_nat (n div 10) @ [digit (n mod 10)])"

declare str_nat.simps [simp del]

definition str_int :: "int \<Rightarrow> bytes" where
  "str_int i = (if i < 0 then CHR ''-'' # str_nat (nat (- i)) else str_nat (nat i))"

text \<open>\<open>sep.join(parts)\<close> on bytes.\<close>

fun join :: "bytes \<Rightarrow> bytes list \<Rightarrow> bytes" where
  "join sep [] = []"
| "join sep [x] = x"
| "join sep (x # y # ys) = x @ sep @ join sep (y # ys)"

text \<open>\<open>b.ljust(width)\<close>: spaces are added on the right up to \<open>width\<close>; a longer value is kept whole.\<close>

definition ljust :: "nat \<Rightarrow> bytes \<Rightarrow> bytes" where
  "ljust width b = b @ replicate (width - length b) CHR '' ''"

subsection \<open>The label tree\<close>

text \<open>
  The values that the encoder tells apart with \<open>isinstance\<close>. A mapping is the list of its
  \<open>(key, value)\<close> pairs in the order \<open>six.iteritems\<close> yields them (the ordered multi-dictionary
  of the library may hold a key more than once). \<open>VGroup\<close> is a \<open>PVLGroup\<close>, \<open>VDict\<close> any other
  \<open>dict\<close>; \<open>PVLGroup\<close> is a subclass of \<open>dict\<close>. \<open>VSet\<close> lists the elements of a \<open>set\<close> in the
  order its iterator yields them. \<open>VFloat\<close> carries the bytes of \<open>str(x)\<close> for the float \<open>x\<close>,
  a conversion of the host that is not modelled further. \<open>VUnits v u\<close> is \<open>Units(v, u)\<close>, a named
  tuple. \<open>VOther\<close> is an object of any other class, named by a label.
\<close>

datatype pvalue =
    VStr pystr
  | VInt int
  | VFloat bytes
  | VNone
  | VBool bool
  | VList "pvalue list"
  | VSet "pvalue list"
  | VUnits pvalue pystr
  | VGroup "(pystr \<times> pvalue) list"
  | VDict "(pystr \<times> pvalue) list"
  | VOther string

type_synonym block = "(pystr \<times> pvalue) list"

text \<open>
  The collaborators that are imported but are not part of the two modules: the quoting
  predicate and the quoting function of \<open>_strings\<close>, and Python's \<open>repr\<close> on the values of
  the tree.
\<close>

record env =
  needs_quotes :: "pystr \<Rightarrow> bool"
  quote_string :: "pystr \<Rightarrow> error + bytes"
  repr :: "pvalue \<Rightarrow> pystr"

subsection \<open>The encoder classes\<close>

datatype encoder_class = PVLEncoder | IsisCubeLabelEncoder | PDSLabelEncoder

text \<open>
  An encoder instance: its class, and the attribute \<open>assignment_col\<close>, which is absent
  (\<open>None\<close>) until \<open>PDSLabelEncoder.encode\<close> assigns it.
\<close>

record encoder =
  cls :: encoder_class
  assignment_col :: "nat option"

definition new_encoder :: "encoder_class \<Rightarrow> encoder" where
  "new_encoder c = \<lparr>cls = c, assignment_col = None\<rparr>"

fun group :: "encoder_class \<Rightarrow> bytes" where
  "group PVLEncoder = ''BEGIN_GROUP''"
| "group IsisCubeLabelEncoder = ''Group''"
| "group PDSLabelEncoder = ''GROUP''"

fun end_group :: "encoder_class \<Rightarrow> bytes" where
  "end_group PVLEncoder = ''END_GROUP''"
| "end_group IsisCubeLabelEncoder = ''End_Group''"
| "end_group PDSLabelEncoder = ''END''"

fun object :: "encoder_class \<Rightarrow> bytes" where
  "object PVLEncoder = ''BEGIN_OBJECT''"
| "object IsisCubeLabelEncoder = ''Object''"
| "object PDSLabelEncoder = ''OBJECT''"

fun end_object :: "encoder_class \<Rightarrow> bytes" where
  "end_object PVLEncoder = ''END_OBJECT''"
| "end_object IsisCubeLabelEncoder = ''End_Object''"
| "end_object PDSLabelEncoder = ''END''"

fun end_statement :: "encoder_class \<Rightarrow> bytes" where
  "end_statement PVLEncoder = ''END''"
| "end_statement IsisCubeLabelEncoder = ''End''"
| "end_statement PDSLabelEncoder = ''END''"

definition null :: bytes where "null = ''NULL''"
definition true :: bytes where "true = ''TRUE''"
definition false :: bytes where "false = ''FALSE''"
definition assignment :: bytes where "assignment = '' = ''"
definition indentation :: bytes where "indentation = ''  ''"
definition newline :: bytes where "newline = [CHR 10]"

subsection \<open>Values to text\<close>

text \<open>
  The \<open>isinstance\<close> tests of \<open>encode_simple_value\<close>. In Python \<open>bool\<close> is a subclass of \<open>int\<close>,
  so \<open>isinstance(value, (int, float))\<close> holds for \<open>True\<close> and \<open>False\<close> too.
\<close>

fun is_string :: "pvalue \<Rightarrow> bool" where
  "is_string (VStr _) = True"
| "is_string _ = False"

fun is_int_or_float :: "pvalue \<Rightarrow> bool" where
  "is_int_or_float (VInt _) = True"
| "is_int_or_float (VFloat _) = True"
| "is_int_or_float (VBool _) = True"
| "is_int_or_float _ = False"

fun is_bool :: "pvalue \<Rightarrow> bool" where
  "is_bool (VBool _) = True"
| "is_bool _ = False"

fun is_list :: "pvalue \<Rightarrow> bool" where
  "is_list (VList _) = True"
| "is_list _ = False"

fun is_set :: "pvalue \<Rightarrow> bool" where
  "is_set (VSet _) = True"
| "is_set _ = False"

fun is_Units :: "pvalue \<Rightarrow> bool" where
  "is_Units (VUnits _ _) = True"
| "is_Units _ = False"

fun is_PVLGroup :: "pvalue \<Rightarrow> bool" where
  "is_PVLGroup (VGroup _) = True"
| "is_PVLGroup _ = False"

fun is_dict :: "pvalue \<Rightarrow> bool" where
  "is_dict (VGroup _) = True"
| "is_dict (VDict _) = True"
| "is_dict _ = False"

text \<open>What a value of each class holds: the reads \<open>value.value\<close> and \<open>value.units\<close> on a
  \<open>Units\<close>, the elements that iterating a list or a set yields, the truth value of a \<open>bool\<close>.\<close>

fun the_str :: "pvalue \<Rightarrow> pystr" where
  "the_str (VStr s) = s"
| "the_str _ = []"

fun the_bool :: "pvalue \<Rightarrow> bool" where
  "the_bool (VBool b) = b"
| "the_bool _ = False"

fun units_value :: "pvalue \<Rightarrow> pvalue" where
  "units_value (VUnits x _) = x"
| "units_value _ = VNone"

fun units_units :: "pvalue \<Rightarrow> pystr" where
  "units_units (VUnits _ u) = u"
| "units_units _ = []"

fun elements :: "pvalue \<Rightarrow> pvalue list" where
  "elements (VList xs) = xs"
| "elements (VSet xs) = xs"
| "elements _ = []"

fun entries :: "pvalue \<Rightarrow> block" where
  "entries (VGroup b) = b"
| "entries (VDict b) = b"
| "entries _ = []"

lemma size_units_value [termination_simp]: "size (units_value v) \<le> size v"
  by (cases v) simp_all

lemma size_elements [termination_simp]: "size_list size (elements v) \<le> size v"
  by (cases v) simp_all

text \<open>\<open>str(value)\<close> on the values that pass the \<open>(int, float)\<close> test.\<close>

fun str_number :: "pvalue \<Rightarrow> bytes" where
  "str_number (VInt i) = str_int i"
| "str_number (VFloat t) = t"
| "str_number (VBool b) = (if b then ''True'' else ''False'')"
| "str_number _ = []"

definition encode_units :: "pystr \<Rightarrow> error + bytes" where
  "encode_units u = (case utf8_encode u of Inl e \<Rightarrow> Inl e | Inr b \<Rightarrow> Inr (''<'' @ b @ ''>''))"

definition encode_null :: "pvalue \<Rightarrow> error + bytes" where
  "encode_null v = Inr null"

definition encode_number :: "pvalue \<Rightarrow> error + bytes" where
  "encode_number v = Inr (str_number v)"

definition encode_string :: "env \<Rightarrow> pvalue \<Rightarrow> error + bytes" where
  "encode_string ev v =
     (if needs_quotes ev (the_str v) then quote_string ev (the_str v)
      else utf8_encode (the_str v))"

definition encode_bool :: "pvalue \<Rightarrow> error + bytes" where
  "encode_bool v = (if the_bool v then Inr true else Inr false)"

definition default :: "env \<Rightarrow> pvalue \<Rightarrow> error + bytes" where
  "default ev v = Inl (TypeError (repr ev v @ ascii '' is not serializable''))"

text \<open>
  \<open>encode_values\<close> is the list comprehension of \<open>encode_sequence\<close>: the elements are encoded
  in order and the first exception ends it.
\<close>

fun encode_value :: "env \<Rightarrow> pvalue \<Rightarrow> error + bytes"
  and encode_simple_value :: "env \<Rightarrow> pvalue \<Rightarrow> error + bytes"
  and encode_values :: "env \<Rightarrow> pvalue list \<Rightarrow> error + bytes list"
  and encode_sequence :: "env \<Rightarrow> pvalue list \<Rightarrow> error + bytes"
  and encode_list :: "env \<Rightarrow> pvalue \<Rightarrow> error + bytes"
  and encode_set :: "env \<Rightarrow> pvalue \<Rightarrow> error + bytes"
where
  "encode_value ev v =
     (if is_Units v then
        (case encode_units (units_units v) of
           Inl e \<Rightarrow> Inl e
         | Inr units \<Rightarrow>
             (case encode_simple_value ev (units_value v) of
                Inl e \<Rightarrow> Inl e
              | Inr b \<Rightarrow> Inr (b @ '' '' @ units)))
      else encode_simple_value ev v)"
| "encode_simple_value ev v =
     (if is_string v then encode_string ev v
      else if is_int_or_float v then encode_number v
      else if v = VNone then encode_null v
      else if is_bool v then encode_bool v
      else if is_list v then encode_list ev v
      else if is_set v then encode_set ev v
      else default ev v)"
| "encode_values ev [] = Inr []"
| "encode_values ev (x # xs) =
     (case encode_value ev x of
        Inl e \<Rightarrow> Inl e
      | Inr b \<Rightarrow> (case encode_values ev xs of Inl e \<Rightarrow> Inl e | Inr bs \<Rightarrow> Inr (b # bs)))"
| "encode_sequence ev xs =
     (case encode_values ev xs of Inl e \<Rightarrow> Inl e | Inr bs \<Rightarrow> Inr (join '', '' bs))"
| "encode_list ev v =
     (case encode_sequence ev (elements v) of
        Inl e \<Rightarrow> Inl e
      | Inr b \<Rightarrow> Inr (''('' @ b @ '')''))"
| "encode_set ev v =
     (case encode_sequence ev (elements v) of
        Inl e \<Rightarrow> Inl e
      | Inr b \<Rightarrow> Inr (''{'' @ b @ ''}''))"

subsection \<open>Blocks to lines\<close>

text \<open>
  The stream is the sequence of bytes written to it so far; \<open>stream.write(b)\<close> appends. A
  method that writes returns the stream as it has left it, with the exception that it raised,
  if any: what was written before an exception stays written.
\<close>

type_synonym outcome = "bytes \<times> error option"

definition stream_write :: "bytes \<Rightarrow> bytes \<Rightarrow> bytes" where
  "stream_write stream b = stream @ b"

text \<open>\<open>level * self.indentation\<close>\<close>

definition repeat :: "nat \<Rightarrow> bytes \<Rightarrow> bytes" where
  "repeat level b = concat (replicate level b)"

definition indent :: "nat \<Rightarrow> bytes \<Rightarrow> bytes" where
  "indent level stream = stream_write stream (repeat level indentation)"

definition PVLEncoder_encode_raw_assignment ::
  "encoder \<Rightarrow> bytes \<Rightarrow> bytes \<Rightarrow> nat \<Rightarrow> bytes \<Rightarrow> outcome" where
  "PVLEncoder_encode_raw_assignment enc key val level stream =
     (let s1 = indent level stream;
          s2 = stream_write s1 key;
          s3 = stream_write s2 assignment;
          s4 = stream_write s3 val;
          s5 = stream_write s4 newline
      in (s5, None))"

text \<open>
  The override of \<open>PDSLabelEncoder\<close> reads the attribute \<open>self.assignment_col\<close>; reading an
  attribute that was never assigned raises \<open>AttributeError\<close>.
\<close>

definition PDSLabelEncoder_encode_raw_assignment ::
  "encoder \<Rightarrow> bytes \<Rightarrow> bytes \<Rightarrow> nat \<Rightarrow> bytes \<Rightarrow> outcome" where
  "PDSLabelEncoder_encode_raw_assignment enc key val level stream =
     (let indented_key = repeat level indentation @ key
      in case assignment_col enc of
           None \<Rightarrow> (stream, Some AttributeError)
         | Some col \<Rightarrow>
             (let s1 = stream_write stream (ljust col indented_key);
                  s2 = stream_write s1 assignment;
                  s3 = stream_write s2 val;
                  s4 = stream_write s3 newline
              in (s4, None)))"

definition encode_raw_assignment ::
  "encoder \<Rightarrow> bytes \<Rightarrow> bytes \<Rightarrow> nat \<Rightarrow> bytes \<Rightarrow> outcome" where
  "encode_raw_assignment enc key val level stream =
     (if cls enc = PDSLabelEncoder
      then PDSLabelEncoder_encode_raw_assignment enc key val level stream
      else PVLEncoder_encode_raw_assignment enc key val level stream)"

text \<open>
  The arguments of a call are evaluated before the call, in the order they are written:
  an exception of \<open>key.encode('utf-8')\<close> or of \<open>self.encode_value(value)\<close> is raised before
  anything of the line is written.
\<close>

definition encode_group_begin ::
  "encoder \<Rightarrow> pystr \<Rightarrow> pvalue \<Rightarrow> nat \<Rightarrow> bytes \<Rightarrow> outcome" where
  "encode_group_begin enc key val level stream =
     (case utf8_encode key of
        Inl e \<Rightarrow> (stream, Some e)
      | Inr k \<Rightarrow> encode_raw_assignment enc (group (cls enc)) k level stream)"

definition PVLEncoder_encode_group_end ::
  "encoder \<Rightarrow> pystr \<Rightarrow> pvalue \<Rightarrow> nat \<Rightarrow> bytes \<Rightarrow> outcome" where
  "PVLEncoder_encode_group_end enc key val level stream =
     (case utf8_encode key of
        Inl e \<Rightarrow> (stream, Some e)
      | Inr k \<Rightarrow> encode_raw_assignment enc (end_group (cls enc)) k level stream)"

definition IsisCubeLabelEncoder_encode_group_end ::
  "encoder \<Rightarrow> pystr \<Rightarrow> pvalue \<Rightarrow> nat \<Rightarrow> bytes \<Rightarrow> outcome" where
  "IsisCubeLabelEncoder_encode_group_end enc key val level stream =
     (let s1 = indent level stream;
          s2 = stream_write s1 (end_group (cls enc));
          s3 = stream_write s2 newline
      in (s3, None))"

definition encode_group_end ::
  "encoder \<Rightarrow> pystr \<Rightarrow> pvalue \<Rightarrow> nat \<Rightarrow> bytes \<Rightarrow> outcome" where
  "encode_group_end enc key val level stream =
     (if cls enc = IsisCubeLabelEncoder
      then IsisCubeLabelEncoder_encode_group_end enc key val level stream
      else PVLEncoder_encode_group_end enc key val level stream)"

definition encode_object_begin ::
  "encoder \<Rightarrow> pystr \<Rightarrow> pvalue \<Rightarrow> nat \<Rightarrow> bytes \<Rightarrow> outcome" where
  "encode_object_begin enc key val level stream =
     (case utf8_encode key of
        Inl e \<Rightarrow> (stream, Some e)
      | Inr k \<Rightarrow> encode_raw_assignment enc (object (cls enc)) k level stream)"

definition PVLEncoder_encode_object_end ::
  "encoder \<Rightarrow> pystr \<Rightarrow> pvalue \<Rightarrow> nat \<Rightarrow> bytes \<Rightarrow> outcome" where
  "PVLEncoder_encode_object_end enc key val level stream =
     (case utf8_encode key of
        Inl e \<Rightarrow> (stream, Some e)
      | Inr k \<Rightarrow> encode_raw_assignment enc (end_object (cls enc)) k level stream)"

definition IsisCubeLabelEncoder_encode_object_end ::
  "encoder \<Rightarrow> pystr \<Rightarrow> pvalue \<Rightarrow> nat \<Rightarrow> bytes \<Rightarrow> outcome" where
  "IsisCubeLabelEncoder_encode_object_end enc key val level stream =
     (let s1 = indent level stream;
          s2 = stream_write s1 (end_object (cls enc));
          s3 = stream_write s2 newline
      in (s3, None))"

definition encode_object_end ::
  "encoder \<Rightarrow> pystr \<Rightarrow> pvalue \<Rightarrow> nat \<Rightarrow> bytes \<Rightarrow> outcome" where
  "encode_object_end enc key val level stream =
     (if cls enc = IsisCubeLabelEncoder
      then IsisCubeLabelEncoder_encode_object_end enc key val level stream
      else PVLEncoder_encode_object_end enc key val level stream)"

definition encode_assignment ::
  "env \<Rightarrow> encoder \<Rightarrow> pystr \<Rightarrow> pvalue \<Rightarrow> nat \<Rightarrow> bytes \<Rightarrow> outcome" where
  "encode_assignment ev enc key val level stream =
     (case utf8_encode key of
        Inl e \<Rightarrow> (stream, Some e)
      | Inr k \<Rightarrow>
          (case encode_value ev val of
             Inl e \<Rightarrow> (stream, Some e)
           | Inr v \<Rightarrow> encode_raw_assignment enc k v level stream))"

lemma size_entries:
  "size_list (size_prod (\<lambda>_. 0) size) (entries v) \<le> size v"
  by (cases v) simp_all

function encode_block :: "env \<Rightarrow> encoder \<Rightarrow> block \<Rightarrow> nat \<Rightarrow> bytes \<Rightarrow> outcome"
  and encode_statement :: "env \<Rightarrow> encoder \<Rightarrow> pystr \<Rightarrow> pvalue \<Rightarrow> nat \<Rightarrow> bytes \<Rightarrow> outcome"
  and encode_group :: "env \<Rightarrow> encoder \<Rightarrow> pystr \<Rightarrow> pvalue \<Rightarrow> nat \<Rightarrow> bytes \<Rightarrow> outcome"
  and encode_object :: "env \<Rightarrow> encoder \<Rightarrow> pystr \<Rightarrow> pvalue \<Rightarrow> nat \<Rightarrow> bytes \<Rightarrow> outcome"
where
  "encode_block ev enc [] level stream = (stream, None)"
| "encode_block ev enc ((key, val) # rest) level stream =
     (case encode_statement ev enc key val level stream of
        (s, Some e) \<Rightarrow> (s, Some e)
      | (s, None) \<Rightarrow> encode_block ev enc rest level s)"
| "encode_statement ev enc key val level stream =
     (if is_PVLGroup val then encode_group ev enc key val level stream
      else if is_dict val then encode_object ev enc key val level stream
      else encode_assignment ev enc key val level stream)"
| "encode_group ev enc key val level stream =
     (case encode_group_begin enc key val level stream of
        (s1, Some e) \<Rightarrow> (s1, Some e)
      | (s1, None) \<Rightarrow>
          (case encode_block ev enc (entries val) (level + 1) s1 of
             (s2, Some e) \<Rightarrow> (s2, Some e)
           | (s2, None) \<Rightarrow> encode_group_end enc key val level s2))"
| "encode_object ev enc key val level stream =
     (case encode_object_begin enc key val level stream of
        (s1, Some e) \<Rightarrow> (s1, Some e)
      | (s1, None) \<Rightarrow>
          (case encode_block ev enc (entries val) (level + 1) s1 of
             (s2, Some e) \<Rightarrow> (s2, Some e)
           | (s2, None) \<Rightarrow> encode_object_end enc key val level s2))"
  by pat_completeness auto

termination
proof (relation "measure (\<lambda>x. case x of
      Inl (Inl (ev, enc, b, level, stream)) \<Rightarrow> 3 * size_list (size_prod (\<lambda>_. 0) size) b
    | Inl (Inr (ev, enc, key, val, level, stream)) \<Rightarrow> 3 * size val + 2
    | Inr (Inl (ev, enc, key, val, level, stream)) \<Rightarrow> 3 * size val + 1
    | Inr (Inr (ev, enc, key, val, level, stream)) \<Rightarrow> 3 * size val + 1)", goal_cases)
  case (6 ev enc key val level stream x xa)
  show ?case using size_entries [of val] by simp
next
  case (7 ev enc key val level stream x xa)
  show ?case using size_entries [of val] by simp
qed simp_all

subsection \<open>The assignment column of \<open>PDSLabelEncoder\<close>\<close>

text \<open>\<open>max\<close> of the values of a generator: \<open>ValueError\<close> when there is none.\<close>

fun max_of :: "nat list \<Rightarrow> error + nat" where
  "max_of [] = Inl ValueError"
| "max_of (x # xs) = Inr (fold max xs x)"

text \<open>
  \<open>key_lengths\<close> is the generator expression of \<open>_detect_assignment_col\<close>: the value of
  \<open>_key_length\<close> for every entry in order, up to the first exception.
\<close>

function detect_assignment_col :: "block \<Rightarrow> nat \<Rightarrow> error + nat"
  and key_lengths :: "block \<Rightarrow> nat \<Rightarrow> error + nat list"
  and key_length :: "pystr \<Rightarrow> pvalue \<Rightarrow> nat \<Rightarrow> error + nat"
where
  "detect_assignment_col b ind =
     (case key_lengths b ind of Inl e \<Rightarrow> Inl e | Inr ls \<Rightarrow> max_of ls)"
| "key_lengths [] ind = Inr []"
| "key_lengths ((k, v) # rest) ind =
     (case key_length k v ind of
        Inl e \<Rightarrow> Inl e
      | Inr l \<Rightarrow> (case key_lengths rest ind of Inl e \<Rightarrow> Inl e | Inr ls \<Rightarrow> Inr (l # ls)))"
| "key_length key val ind =
     (let len = ind + length key
      in if is_dict val then
           (case detect_assignment_col (entries val) (ind + length indentation) of
              Inl e \<Rightarrow> Inl e
            | Inr m \<Rightarrow> Inr (max len m))
         else Inr len)"
  by pat_completeness auto

termination
proof (relation "measure (\<lambda>x. case x of
      Inl (b, ind) \<Rightarrow> 3 * size_list (size_prod (\<lambda>_. 0) size) b + 1
    | Inr (Inl (b, ind)) \<Rightarrow> 3 * size_list (size_prod (\<lambda>_. 0) size) b
    | Inr (Inr (key, val, ind)) \<Rightarrow> 3 * size val + 2)", goal_cases)
  case (5 key val ind x)
  show ?case using size_entries [of val] by simp
qed simp_all

subsection \<open>\<open>encode\<close>\<close>

text \<open>
  \<open>encode\<close> returns the encoder instance as the call leaves it, the stream, and the exception
  raised, if any. \<open>PDSLabelEncoder.encode\<close> assigns the attribute \<open>assignment_col\<close> of the
  instance and then runs the method of the base class.
\<close>

definition PVLEncoder_encode ::
  "env \<Rightarrow> encoder \<Rightarrow> block \<Rightarrow> bytes \<Rightarrow> encoder \<times> bytes \<times> error option" where
  "PVLEncoder_encode ev enc module stream =
     (case encode_block ev enc module 0 stream of
        (s, Some e) \<Rightarrow> (enc, s, Some e)
      | (s, None) \<Rightarrow> (enc, stream_write s (end_statement (cls enc)), None))"

definition PDSLabelEncoder_encode ::
  "env \<Rightarrow> encoder \<Rightarrow> block \<Rightarrow> bytes \<Rightarrow> encoder \<times> bytes \<times> error option" where
  "PDSLabelEncoder_encode ev enc module stream =
     (case detect_assignment_col module 0 of
        Inl e \<Rightarrow> (enc, stream, Some e)
      | Inr col \<Rightarrow> PVLEncoder_encode ev (enc\<lparr>assignment_col := Some col\<rparr>) module stream)"

definition encode ::
  "env \<Rightarrow> encoder \<Rightarrow> block \<Rightarrow> bytes \<Rightarrow> encoder \<times> bytes \<times> error option" where
  "encode ev enc module stream =
     (if cls enc = PDSLabelEncoder then PDSLabelEncoder_encode ev enc module stream
      else PVLEncoder_encode ev enc module stream)"

subsection \<open>The driver \<open>pvl_validate\<close>\<close>

text \<open>
  A profile of the table \<open>dialects\<close> is the keyword arguments \<open>decenc\<close> that \<open>pvl_flavor\<close> hands
  to \<open>pvl.loads\<close> and \<open>pvl.dumps\<close>. The two functions, the parsers and the decoders are not part
  of the two modules, so a profile is taken as what the two calls do with it: \<open>loads\<close> is
  \<open>pvl.loads(text, **decenc)\<close> and \<open>dumps\<close> is \<open>pvl.dumps(some_pvl, **decenc)\<close>, each returning
  its value or the exception it raises. The table \<open>dialects\<close> itself names two encoder
  classes, \<open>ODLEncoder\<close> and \<open>ISISEncoder\<close>, that \<open>encoder.py\<close> does not define; the table is
  an argument of \<open>main\<close> here.
\<close>

record decenc =
  loads :: "pystr \<Rightarrow> error + block"
  dumps :: "block \<Rightarrow> error + bytes"

text \<open>\<open>isinstance(err, ValueError)\<close>, which holds for the subclass \<open>UnicodeEncodeError\<close> too.\<close>

fun is_ValueError :: "error \<Rightarrow> bool" where
  "is_ValueError ValueError = True"
| "is_ValueError UnicodeEncodeError = True"
| "is_ValueError _ = False"

text \<open>
  \<open>pvl_flavor\<close> returns the pair \<open>(loads, encodes)\<close>, each \<open>True\<close>, \<open>False\<close> or \<open>None\<close>, or lets
  an exception through: the inner handler catches \<open>(LexerError, ParseError, ValueError)\<close>, the
  outer one \<open>(LexerError, ParseError)\<close>. The arguments \<open>dialect\<close>, \<open>filename\<close> and \<open>verbose\<close>
  are only logged.
\<close>

definition pvl_flavor :: "pystr \<Rightarrow> decenc \<Rightarrow> error + (bool option \<times> bool option)" where
  "pvl_flavor text d =
     (case loads d text of
        Inl err \<Rightarrow>
          (if err = LexerError \<or> err = ParseError then Inr (Some False, None) else Inl err)
      | Inr some_pvl \<Rightarrow>
          (case dumps d some_pvl of
             Inr _ \<Rightarrow> Inr (Some True, Some True)
           | Inl err \<Rightarrow>
               (if err = LexerError \<or> err = ParseError \<or> is_ValueError err
                then Inr (Some True, Some False)
                else Inl err)))"

text \<open>
  The loops of \<open>main\<close>: for every file, \<open>pvl_flavor\<close> for every entry of \<open>dialects\<close> in order;
  a file is given with the text that \<open>pvl.get_text_from\<close> reads from it. An exception that
  \<open>pvl_flavor\<close> lets through is caught nowhere, so it ends \<open>main\<close>.
\<close>

fun flavor_results ::
  "(string \<times> decenc) list \<Rightarrow> pystr \<Rightarrow> error + (string \<times> bool option \<times> bool option) list" where
  "flavor_results [] text = Inr []"
| "flavor_results ((k, v) # rest) text =
     (case pvl_flavor text v of
        Inl e \<Rightarrow> Inl e
      | Inr r \<Rightarrow>
          (case flavor_results rest text of Inl e \<Rightarrow> Inl e | Inr rs \<Rightarrow> Inr ((k, r) # rs)))"

fun main ::
  "(string \<times> decenc) list \<Rightarrow> (string \<times> pystr) list \<Rightarrow>
   error + (string \<times> (string \<times> bool option \<times> bool option) list) list" where
  "main dialects [] = Inr []"
| "main dialects ((f, pvl_text) # files) =
     (case flavor_results dialects pvl_text of
        Inl e \<Rightarrow> Inl e
      | Inr results \<Rightarrow>
          (case main dialects files of
             Inl e \<Rightarrow> Inl e
           | Inr results_list \<Rightarrow> Inr ((f, results) # results_list)))"

text \<open>
  Modelled from the spec: \<open>pvl.dumps\<close> is not among the sources. The reporting layer pairs a
  decoder with one of the encoders and observes whether encoding succeeds or fails: the
  encoder of the profile encodes the module into a buffer of its own, and the bytes are
  returned, or the exception goes to the caller.
\<close>

definition dumps_with :: "env \<Rightarrow> encoder \<Rightarrow> block \<Rightarrow> error + bytes" where
  "dumps_with ev enc module =
     (case encode ev enc module [] of
        (_, s, None) \<Rightarrow> Inr s
      | (_, _, Some e) \<Rightarrow> Inl e)"

subsection \<open>Vocabulary of the specification\<close>

text \<open>
  The column as the specification words it: every key at nesting depth \<open>d\<close> is a candidate
  \<open>d\<close> times the width of the indent unit plus the length of the key, nested mappings and
  groups are entered with \<open>d + 1\<close>, and the column is the greatest candidate of the tree.
\<close>

function spec_candidates :: "nat \<Rightarrow> block \<Rightarrow> nat list" where
  "spec_candidates d [] = []"
| "spec_candidates d ((k, v) # rest) =
     (d * length indentation + length k)
       # (if is_dict v then spec_candidates (d + 1) (entries v) else [])
       @ spec_candidates d rest"
  by pat_completeness auto

termination
proof (relation "measure (\<lambda>(d, b). size_list (size_prod (\<lambda>_. 0) size) b)", goal_cases)
  case (2 d k v rest)
  show ?case using size_entries [of v] by simp
qed simp_all

definition spec_column :: "block \<Rightarrow> nat" where
  "spec_column tree = Max (set (spec_candidates 0 tree))"

text \<open>A tree that holds no \<open>set\<close> anywhere.\<close>

fun no_set :: "pvalue \<Rightarrow> bool"
  and no_set_list :: "pvalue list \<Rightarrow> bool"
  and no_set_block :: "block \<Rightarrow> bool"
where
  "no_set (VSet xs) = False"
| "no_set (VList xs) = no_set_list xs"
| "no_set (VUnits x u) = no_set x"
| "no_set (VGroup b) = no_set_block b"
| "no_set (VDict b) = no_set_block b"
| "no_set (VStr s) = True"
| "no_set (VInt i) = True"
| "no_set (VFloat t) = True"
| "no_set VNone = True"
| "no_set (VBool b) = True"
| "no_set (VOther n) = True"
| "no_set_list [] = True"
| "no_set_list (x # xs) = (no_set x \<and> no_set_list xs)"
| "no_set_block [] = True"
| "no_set_block ((k, v) # b) = (no_set v \<and> no_set_block b)"

text \<open>
  The same tree up to the order in which its sets are iterated: two values are related when
  they differ at most in the order of the elements listed for a \<open>set\<close>.
\<close>

inductive same_value :: "pvalue \<Rightarrow> pvalue \<Rightarrow> bool" where
  same_refl: "same_value v v"
| same_list: "list_all2 same_value xs ys \<Longrightarrow> same_value (VList xs) (VList ys)"
| same_set:
    "list_all2 same_value xs zs \<Longrightarrow> mset zs = mset ys \<Longrightarrow> same_value (VSet xs) (VSet ys)"
| same_units: "same_value x y \<Longrightarrow> same_value (VUnits x u) (VUnits y u)"
| same_group:
    "list_all2 (\<lambda>p q. fst p = fst q \<and> same_value (snd p) (snd q)) b c \<Longrightarrow>
     same_value (VGroup b) (VGroup c)"
| same_dict:
    "list_all2 (\<lambda>p q. fst p = fst q \<and> same_value (snd p) (snd q)) b c \<Longrightarrow>
     same_value (VDict b) (VDict c)"

definition same_block :: "block \<Rightarrow> block \<Rightarrow> bool" where
  "same_block b c = list_all2 (\<lambda>p q. fst p = fst q \<and> same_value (snd p) (snd q)) b c"

text \<open>The greatest number of a list, 0 for the empty list: an auxiliary of the proofs.\<close>

fun maxl :: "nat list \<Rightarrow> nat" where
  "maxl [] = 0"
| "maxl (x # xs) = max x (maxl xs)"

text \<open>
  Collaborators for concrete runs: no text needs quotes, and \<open>repr\<close> of every value is
  \<open><object>\<close>.
\<close>

definition plain_env :: env where
  "plain_env =
     \<lparr>needs_quotes = (\<lambda>_. False), quote_string = (\<lambda>_. Inl OtherError),
      repr = (\<lambda>_. ascii ''<object>'')\<rparr>"

text \<open>
  The place of a key, or of the token of a begin or a close line, on its line, as
  \<open>encode_raw_assignment\<close> of the class lays it out: after the indentation of the level, and
  under \<open>PDSLabelEncoder\<close> padded to the column by \<open>ljust\<close>. The begin line and the close line
  of a group or an object with a given encoded name follow; the close line of
  \<open>IsisCubeLabelEncoder\<close> is the bare end token.
\<close>

definition spec_key_slot :: "encoder \<Rightarrow> nat \<Rightarrow> bytes \<Rightarrow> bytes" where
  "spec_key_slot enc level tok =
     (if cls enc = PDSLabelEncoder
      then (case assignment_col enc of
              Some col \<Rightarrow> ljust col (repeat level indentation @ tok)
            | None \<Rightarrow> repeat level indentation @ tok)
      else repeat level indentation @ tok)"

definition spec_begin_line :: "encoder \<Rightarrow> pvalue \<Rightarrow> bytes \<Rightarrow> nat \<Rightarrow> bytes" where
  "spec_begin_line enc val name level =
     spec_key_slot enc level (if is_PVLGroup val then group (cls enc) else object (cls enc))
       @ assignment @ name @ newline"

definition spec_close_line :: "encoder \<Rightarrow> pvalue \<Rightarrow> bytes \<Rightarrow> nat \<Rightarrow> bytes" where
  "spec_close_line enc val name level =
     (if cls enc = IsisCubeLabelEncoder
      then repeat level indentation
             @ (if is_PVLGroup val then end_group (cls enc) else end_object (cls enc)) @ newline
      else spec_key_slot enc level
             (if is_PVLGroup val then end_group (cls enc) else end_object (cls enc))
             @ assignment @ name @ newline)"




text \<open>
  An entry of a tree and its nesting depth: the entries of the tree itself are at depth 0, the
  entries of a group or a mapping one deeper than the group or mapping.
\<close>

inductive entry_at :: "block \<Rightarrow> nat \<Rightarrow> pystr \<Rightarrow> pvalue \<Rightarrow> bool" where
  entry_here: "entry_at (pre @ (key, val) # post) 0 key val"
| entry_inside:
    "is_dict g \<Longrightarrow> entry_at (entries g) d key val \<Longrightarrow>
     entry_at (pre @ (k, g) # post) (Suc d) key val"

text \<open>
  The run of \<open>encode_block\<close> on a block up to one of the entries of its tree: the entries before
  it are encoded without an exception, and so are the begin lines of the groups and objects
  that enclose it. \<open>reaches ev enc b level s key val level' s'\<close> says that the run on \<open>b\<close> at
  \<open>level\<close> from the stream \<open>s\<close> comes to the entry \<open>(key, val)\<close> at \<open>level'\<close> with the stream \<open>s'\<close>.
\<close>

inductive reaches ::
  "env \<Rightarrow> encoder \<Rightarrow> block \<Rightarrow> nat \<Rightarrow> bytes \<Rightarrow> pystr \<Rightarrow> pvalue \<Rightarrow> nat \<Rightarrow> bytes \<Rightarrow> bool"
  for ev :: env and enc :: encoder
where
  reaches_here:
    "encode_block ev enc pre level s = (s1, None) \<Longrightarrow>
     reaches ev enc (pre @ (key, val) # post) level s key val level s1"
| reaches_inside:
    "encode_block ev enc pre level s = (s1, None) \<Longrightarrow>
     is_dict g \<Longrightarrow>
     (if is_PVLGroup g then encode_group_begin enc k g level s1
      else encode_object_begin enc k g level s1) = (s2, None) \<Longrightarrow>
     reaches ev enc (entries g) (level + 1) s2 key val level' s' \<Longrightarrow>
     reaches ev enc (pre @ (k, g) # post) level s key val level' s'"

text \<open>A tree that is not empty and in which no group and no mapping is empty.\<close>

function nested_nonempty :: "block \<Rightarrow> bool" where
  "nested_nonempty [] = True"
| "nested_nonempty ((k, v) # rest) =
     ((if is_dict v then entries v \<noteq> [] \<and> nested_nonempty (entries v) else True)
      \<and> nested_nonempty rest)"
  by pat_completeness auto

termination
proof (relation "measure (size_list (size_prod (\<lambda>_. 0) size))", goal_cases)
  case (2 k v rest)
  show ?case using size_entries [of v] by simp
qed simp_all

definition mappings_nonempty :: "block \<Rightarrow> bool" where
  "mappings_nonempty tree = (tree \<noteq> [] \<and> nested_nonempty tree)"

section \<open>Properties\<close>

subsection \<open>Evaluation\<close>

text \<open>
  The equations of the functions that do not match on a constructor are unfolded only where
  a proof asks for them.
\<close>

declare encode_statement.simps [simp del] encode_group.simps [simp del]
  encode_object.simps [simp del] encode_value.simps [simp del]
  encode_simple_value.simps [simp del] encode_sequence.simps [simp del]
  encode_list.simps [simp del] encode_set.simps [simp del]
  detect_assignment_col.simps [simp del] key_length.simps [simp del]

lemmas block_simps = encode_statement.simps encode_group.simps encode_object.simps

lemmas value_simps =
  encode_value.simps encode_simple_value.simps encode_sequence.simps encode_list.simps
  encode_set.simps

lemmas column_simps = detect_assignment_col.simps key_length.simps

lemma utf8_char_ascii: "of_char c < (128::nat) \<Longrightarrow> utf8_char (of_char c) = Inr [c]"
  by (simp add: utf8_char_def)

lemma utf8_encode_ascii:
  "\<forall>c\<in>set s. of_char c < (128::nat) \<Longrightarrow> utf8_encode (ascii s) = Inr s"
  by (induction s) (simp_all add: ascii_def utf8_char_ascii)

lemmas line_defs =
  encode_raw_assignment_def PVLEncoder_encode_raw_assignment_def
  PDSLabelEncoder_encode_raw_assignment_def encode_group_begin_def encode_group_end_def
  PVLEncoder_encode_group_end_def IsisCubeLabelEncoder_encode_group_end_def
  encode_object_begin_def encode_object_end_def PVLEncoder_encode_object_end_def
  IsisCubeLabelEncoder_encode_object_end_def encode_assignment_def indent_def
  stream_write_def repeat_def ljust_def assignment_def indentation_def newline_def

lemmas value_defs =
  encode_units_def encode_null_def encode_number_def encode_string_def encode_bool_def
  default_def null_def true_def false_def str_int_def str_nat.simps digit_def

lemmas encode_defs =
  encode_def PVLEncoder_encode_def PDSLabelEncoder_encode_def new_encoder_def

lemma length_ascii: "length (ascii s) = length s"
  by (simp add: ascii_def)

subsection \<open>The stream is only appended to\<close>

text \<open>
  Whatever the stream holds before a call stays in front of what the call writes, and what
  the call writes and raises does not depend on it.
\<close>

lemma encode_raw_assignment_append:
  "encode_raw_assignment enc key val level (s @ stream)
   = (s @ fst (encode_raw_assignment enc key val level stream),
      snd (encode_raw_assignment enc key val level stream))"
  by (simp add: encode_raw_assignment_def PVLEncoder_encode_raw_assignment_def
      PDSLabelEncoder_encode_raw_assignment_def indent_def stream_write_def Let_def
      split: option.splits)

lemma encode_group_begin_append:
  "encode_group_begin enc key val level (s @ stream)
   = (s @ fst (encode_group_begin enc key val level stream),
      snd (encode_group_begin enc key val level stream))"
  unfolding encode_group_begin_def
  by (cases "utf8_encode key") (simp_all add: encode_raw_assignment_append [of _ _ _ _ s stream])

lemma encode_object_begin_append:
  "encode_object_begin enc key val level (s @ stream)
   = (s @ fst (encode_object_begin enc key val level stream),
      snd (encode_object_begin enc key val level stream))"
  unfolding encode_object_begin_def
  by (cases "utf8_encode key") (simp_all add: encode_raw_assignment_append [of _ _ _ _ s stream])

lemma encode_group_end_append:
  "encode_group_end enc key val level (s @ stream)
   = (s @ fst (encode_group_end enc key val level stream),
      snd (encode_group_end enc key val level stream))"
  unfolding encode_group_end_def PVLEncoder_encode_group_end_def
    IsisCubeLabelEncoder_encode_group_end_def
  by (cases "utf8_encode key")
    (simp_all add: encode_raw_assignment_append [of _ _ _ _ s stream] indent_def
      stream_write_def)

lemma encode_object_end_append:
  "encode_object_end enc key val level (s @ stream)
   = (s @ fst (encode_object_end enc key val level stream),
      snd (encode_object_end enc key val level stream))"
  unfolding encode_object_end_def PVLEncoder_encode_object_end_def
    IsisCubeLabelEncoder_encode_object_end_def
  by (cases "utf8_encode key")
    (simp_all add: encode_raw_assignment_append [of _ _ _ _ s stream] indent_def
      stream_write_def)

lemma encode_assignment_append:
  "encode_assignment ev enc key val level (s @ stream)
   = (s @ fst (encode_assignment ev enc key val level stream),
      snd (encode_assignment ev enc key val level stream))"
  unfolding encode_assignment_def
  by (cases "utf8_encode key"; cases "encode_value ev val")
    (simp_all add: encode_raw_assignment_append [of _ _ _ _ s stream])

lemma encode_append_all:
  "encode_block ev enc b level (s @ stream1)
   = (s @ fst (encode_block ev enc b level stream1), snd (encode_block ev enc b level stream1))"
  "encode_statement ev enc key val level2 (s @ stream2)
   = (s @ fst (encode_statement ev enc key val level2 stream2),
      snd (encode_statement ev enc key val level2 stream2))"
  "encode_group ev enc key3 val3 level3 (s @ stream3)
   = (s @ fst (encode_group ev enc key3 val3 level3 stream3),
      snd (encode_group ev enc key3 val3 level3 stream3))"
  "encode_object ev enc key4 val4 level4 (s @ stream4)
   = (s @ fst (encode_object ev enc key4 val4 level4 stream4),
      snd (encode_object ev enc key4 val4 level4 stream4))"
proof (induction ev enc b level stream1 and ev enc key val level2 stream2
    and ev enc key3 val3 level3 stream3 and ev enc key4 val4 level4 stream4
    rule: encode_block_encode_statement_encode_group_encode_object.induct)
  case (1 ev enc level stream)
  show ?case by simp
next
  case (2 ev enc key val rest level stream)
  obtain s1 e1 where st: "encode_statement ev enc key val level stream = (s1, e1)"
    by (cases "encode_statement ev enc key val level stream")
  with "2.IH"(1)
  have st': "encode_statement ev enc key val level (s @ stream) = (s @ s1, e1)" by simp
  show ?case
  proof (cases e1)
    case None
    from "2.IH"(2) [of s1 e1] st None
    have "encode_block ev enc rest level (s @ s1)
          = (s @ fst (encode_block ev enc rest level s1), snd (encode_block ev enc rest level s1))"
      by simp
    with st st' None show ?thesis by simp
  next
    case (Some e)
    with st st' show ?thesis by simp
  qed
next
  case (3 ev enc key val level stream)
  show ?case
  proof (cases "is_PVLGroup val")
    case True
    with "3.IH"(1) show ?thesis by (simp add: encode_statement.simps)
  next
    case False
    show ?thesis
    proof (cases "is_dict val")
      case True
      with "3.IH"(2) False show ?thesis by (simp add: encode_statement.simps)
    next
      case nd: False
      with False show ?thesis
        by (simp add: encode_statement.simps encode_assignment_append [of _ _ _ _ _ s stream])
    qed
  qed
next
  case (4 ev enc key val level stream)
  obtain s1 e1 where b: "encode_group_begin enc key val level stream = (s1, e1)"
    by (cases "encode_group_begin enc key val level stream")
  then have b': "encode_group_begin enc key val level (s @ stream) = (s @ s1, e1)"
    by (simp add: encode_group_begin_append [of _ _ _ _ s stream])
  show ?case
  proof (cases e1)
    case (Some e)
    with b b' show ?thesis by (simp add: encode_group.simps)
  next
    case None
    obtain s2 e2 where k: "encode_block ev enc (entries val) (level + 1) s1 = (s2, e2)"
      by (cases "encode_block ev enc (entries val) (level + 1) s1")
    from "4.IH" [of s1 e1] b None k
    have k': "encode_block ev enc (entries val) (level + 1) (s @ s1) = (s @ s2, e2)"
      by simp
    show ?thesis
    proof (cases e2)
      case (Some e)
      with b b' None k k' show ?thesis by (simp add: encode_group.simps)
    next
      case n2: None
      with b b' None k k' show ?thesis
        by (simp add: encode_group.simps encode_group_end_append [of _ _ _ _ s s2])
    qed
  qed
next
  case (5 ev enc key val level stream)
  obtain s1 e1 where b: "encode_object_begin enc key val level stream = (s1, e1)"
    by (cases "encode_object_begin enc key val level stream")
  then have b': "encode_object_begin enc key val level (s @ stream) = (s @ s1, e1)"
    by (simp add: encode_object_begin_append [of _ _ _ _ s stream])
  show ?case
  proof (cases e1)
    case (Some e)
    with b b' show ?thesis by (simp add: encode_object.simps)
  next
    case None
    obtain s2 e2 where k: "encode_block ev enc (entries val) (level + 1) s1 = (s2, e2)"
      by (cases "encode_block ev enc (entries val) (level + 1) s1")
    from "5.IH" [of s1 e1] b None k
    have k': "encode_block ev enc (entries val) (level + 1) (s @ s1) = (s @ s2, e2)"
      by simp
    show ?thesis
    proof (cases e2)
      case (Some e)
      with b b' None k k' show ?thesis by (simp add: encode_object.simps)
    next
      case n2: None
      with b b' None k k' show ?thesis
        by (simp add: encode_object.simps encode_object_end_append [of _ _ _ _ s s2])
    qed
  qed
qed

text \<open>A block of two parts is encoded part by part, the second unless the first raises.\<close>

lemma encode_block_append:
  "encode_block ev enc (b1 @ b2) level s
   = (case encode_block ev enc b1 level s of
        (s1, None) \<Rightarrow> encode_block ev enc b2 level s1
      | (s1, Some e) \<Rightarrow> (s1, Some e))"
proof (induction b1 arbitrary: s)
  case Nil
  show ?case by simp
next
  case (Cons p b1)
  obtain key val where p: "p = (key, val)" by (cases p)
  obtain s1 e1 where st: "encode_statement ev enc key val level s = (s1, e1)"
    by (cases "encode_statement ev enc key val level s")
  show ?case
    using Cons.IH [of s1] p st by (cases e1) simp_all
qed

subsection \<open>Booleans\<close>

text \<open>
  Claim C1. The claim is that a boolean is encoded as the literal \<open>TRUE\<close> or \<open>FALSE\<close> and never
  by the conversion of numbers. In \<open>encode_simple_value\<close> the test for \<open>(int, float)\<close> stands
  before the test for \<open>bool\<close> and holds for a boolean, so a boolean is encoded by
  \<open>encode_number\<close>: as \<open>True\<close> or \<open>False\<close>, the text of \<open>str\<close>, and \<open>encode_bool\<close> is never
  reached.
\<close>

theorem bool_encoded_by_encode_number:
  "encode_value ev (VBool True) = Inr ''True''
   \<and> encode_value ev (VBool False) = Inr ''False''
   \<and> encode_bool (VBool True) = Inr ''TRUE''
   \<and> encode_bool (VBool False) = Inr ''FALSE''"
  by (simp add: value_simps encode_number_def encode_bool_def true_def false_def)

subsection \<open>The example of the default dialect\<close>

text \<open>
  Claim C3. For the mapping \<open>{"A": 1, "X": Group({"B": 2})}\<close> the encoder of the default
  dialect appends to the stream exactly the five lines \<open>A = 1\<close>, \<open>BEGIN_GROUP = X\<close>,
  \<open>B = 2\<close> indented by one unit, \<open>END_GROUP = X\<close> and \<open>END\<close>, the last without a line break,
  and raises nothing.
\<close>

theorem default_dialect_example:
  "encode ev (new_encoder PVLEncoder)
     [(ascii ''A'', VInt 1), (ascii ''X'', VGroup [(ascii ''B'', VInt 2)])] stream
   = (new_encoder PVLEncoder,
      stream @ ''A = 1\<newline>BEGIN_GROUP = X\<newline>  B = 2\<newline>END_GROUP = X\<newline>END'', None)"
  by (simp add: encode_defs block_simps value_simps line_defs value_defs utf8_encode_ascii)

subsection \<open>The empty mapping\<close>

text \<open>
  Claim C9. On the empty mapping \<open>PDSLabelEncoder.encode\<close> raises \<open>ValueError\<close>, from \<open>max\<close> of
  no key length, with the stream as it was; the encoders of the default and of the cube
  dialect succeed and write their terminal token, \<open>END\<close> and \<open>End\<close>, and nothing else.
\<close>

theorem empty_mapping:
  "encode ev \<lparr>cls = PDSLabelEncoder, assignment_col = c\<rparr> [] stream
     = (\<lparr>cls = PDSLabelEncoder, assignment_col = c\<rparr>, stream, Some ValueError)
   \<and> encode ev \<lparr>cls = PVLEncoder, assignment_col = c\<rparr> [] stream
     = (\<lparr>cls = PVLEncoder, assignment_col = c\<rparr>, stream @ ''END'', None)
   \<and> encode ev \<lparr>cls = IsisCubeLabelEncoder, assignment_col = c\<rparr> [] stream
     = (\<lparr>cls = IsisCubeLabelEncoder, assignment_col = c\<rparr>, stream @ ''End'', None)"
  by (simp add: encode_defs column_simps stream_write_def)

subsection \<open>Begin lines and close lines\<close>

lemma encode_block_prefix:
  "encode_block ev enc b level s
   = (s @ fst (encode_block ev enc b level []), snd (encode_block ev enc b level []))"
  using encode_append_all(1) [of ev enc b level s "[]"] by simp

lemma repeat_indentation: "repeat level indentation = replicate (2 * level) CHR '' ''"
  by (induction level) (simp_all add: repeat_def indentation_def)

lemma cube_group_end:
  "cls enc = IsisCubeLabelEncoder \<Longrightarrow>
   encode_group_end enc key val level s
   = (s @ repeat level indentation @ ''End_Group'' @ newline, None)"
  by (simp add: encode_group_end_def IsisCubeLabelEncoder_encode_group_end_def indent_def
      stream_write_def)

lemma raw_assignment_line:
  assumes "encode_raw_assignment enc tok k level [] = (l, None)"
  shows "\<exists>r. l = repeat level indentation @ tok @ r @ newline"
proof (cases "cls enc = PDSLabelEncoder")
  case False
  with assms have "l = repeat level indentation @ tok @ (assignment @ k) @ newline"
    by (simp add: encode_raw_assignment_def PVLEncoder_encode_raw_assignment_def indent_def
        stream_write_def)
  then show ?thesis by blast
next
  case True
  with assms obtain col where "assignment_col enc = Some col"
    by (cases "assignment_col enc")
      (simp_all add: encode_raw_assignment_def PDSLabelEncoder_encode_raw_assignment_def)
  with assms True
  have "l = repeat level indentation @ tok
          @ (replicate (col - length (repeat level indentation @ tok)) CHR '' '' @ assignment @ k)
          @ newline"
    by (simp add: encode_raw_assignment_def PDSLabelEncoder_encode_raw_assignment_def
        stream_write_def ljust_def)
  then show ?thesis by blast
qed

lemma group_begin_line:
  assumes "encode_group_begin enc key val level [] = (l, None)"
  shows "\<exists>r. l = repeat level indentation @ group (cls enc) @ r @ newline"
  using assms raw_assignment_line [of enc "group (cls enc)" _ level l]
  by (auto simp: encode_group_begin_def split: sum.splits)

lemma object_begin_line:
  assumes "encode_object_begin enc key val level [] = (l, None)"
  shows "\<exists>r. l = repeat level indentation @ object (cls enc) @ r @ newline"
  using assms raw_assignment_line [of enc "object (cls enc)" _ level l]
  by (auto simp: encode_object_begin_def split: sum.splits)

lemma group_end_line:
  assumes "encode_group_end enc key val level [] = (l, None)"
  shows "\<exists>r. l = repeat level indentation @ end_group (cls enc) @ r @ newline"
proof (cases "cls enc = IsisCubeLabelEncoder")
  case True
  with assms have "l = repeat level indentation @ end_group (cls enc) @ [] @ newline"
    by (simp add: encode_group_end_def IsisCubeLabelEncoder_encode_group_end_def indent_def
        stream_write_def)
  then show ?thesis by blast
next
  case False
  with assms raw_assignment_line [of enc "end_group (cls enc)" _ level l]
  show ?thesis
    by (auto simp: encode_group_end_def PVLEncoder_encode_group_end_def split: sum.splits)
qed

lemma object_end_line:
  assumes "encode_object_end enc key val level [] = (l, None)"
  shows "\<exists>r. l = repeat level indentation @ end_object (cls enc) @ r @ newline"
proof (cases "cls enc = IsisCubeLabelEncoder")
  case True
  with assms have "l = repeat level indentation @ end_object (cls enc) @ [] @ newline"
    by (simp add: encode_object_end_def IsisCubeLabelEncoder_encode_object_end_def indent_def
        stream_write_def)
  then show ?thesis by blast
next
  case False
  with assms raw_assignment_line [of enc "end_object (cls enc)" _ level l]
  show ?thesis
    by (auto simp: encode_object_end_def PVLEncoder_encode_object_end_def split: sum.splits)
qed

lemma encode_group_parts:
  assumes "encode_group ev enc key val level stream = (s', None)"
  shows "\<exists>begin_line body close_line.
           s' = stream @ begin_line @ body @ close_line
         \<and> encode_group_begin enc key val level [] = (begin_line, None)
         \<and> encode_block ev enc (entries val) (level + 1) [] = (body, None)
         \<and> encode_group_end enc key val level [] = (close_line, None)"
proof -
  obtain s1 e1 where b: "encode_group_begin enc key val level stream = (s1, e1)"
    by (cases "encode_group_begin enc key val level stream")
  obtain s2 e2 where k: "encode_block ev enc (entries val) (level + 1) s1 = (s2, e2)"
    by (cases "encode_block ev enc (entries val) (level + 1) s1")
  have e1: "e1 = None"
    using assms b by (cases e1) (simp_all add: encode_group.simps)
  have e2: "e2 = None"
    using assms b k e1 by (cases e2) (simp_all add: encode_group.simps)
  have c: "encode_group_end enc key val level s2 = (s', None)"
    using assms b k e1 e2 by (simp add: encode_group.simps)
  obtain bl where bl: "encode_group_begin enc key val level [] = (bl, None)" "s1 = stream @ bl"
    using b e1 encode_group_begin_append [of enc key val level stream "[]"]
    by (cases "encode_group_begin enc key val level []") simp
  obtain bd where bd: "encode_block ev enc (entries val) (level + 1) [] = (bd, None)"
    "s2 = s1 @ bd"
    using k e2 encode_block_prefix [of ev enc "entries val" "level + 1" s1]
    by (cases "encode_block ev enc (entries val) (level + 1) []") simp
  obtain cl where cl: "encode_group_end enc key val level [] = (cl, None)" "s' = s2 @ cl"
    using c encode_group_end_append [of enc key val level s2 "[]"]
    by (cases "encode_group_end enc key val level []") simp
  from bl bd cl show ?thesis by simp
qed

lemma encode_object_parts:
  assumes "encode_object ev enc key val level stream = (s', None)"
  shows "\<exists>begin_line body close_line.
           s' = stream @ begin_line @ body @ close_line
         \<and> encode_object_begin enc key val level [] = (begin_line, None)
         \<and> encode_block ev enc (entries val) (level + 1) [] = (body, None)
         \<and> encode_object_end enc key val level [] = (close_line, None)"
proof -
  obtain s1 e1 where b: "encode_object_begin enc key val level stream = (s1, e1)"
    by (cases "encode_object_begin enc key val level stream")
  obtain s2 e2 where k: "encode_block ev enc (entries val) (level + 1) s1 = (s2, e2)"
    by (cases "encode_block ev enc (entries val) (level + 1) s1")
  have e1: "e1 = None"
    using assms b by (cases e1) (simp_all add: encode_object.simps)
  have e2: "e2 = None"
    using assms b k e1 by (cases e2) (simp_all add: encode_object.simps)
  have c: "encode_object_end enc key val level s2 = (s', None)"
    using assms b k e1 e2 by (simp add: encode_object.simps)
  obtain bl where bl: "encode_object_begin enc key val level [] = (bl, None)" "s1 = stream @ bl"
    using b e1 encode_object_begin_append [of enc key val level stream "[]"]
    by (cases "encode_object_begin enc key val level []") simp
  obtain bd where bd: "encode_block ev enc (entries val) (level + 1) [] = (bd, None)"
    "s2 = s1 @ bd"
    using k e2 encode_block_prefix [of ev enc "entries val" "level + 1" s1]
    by (cases "encode_block ev enc (entries val) (level + 1) []") simp
  obtain cl where cl: "encode_object_end enc key val level [] = (cl, None)" "s' = s2 @ cl"
    using c encode_object_end_append [of enc key val level s2 "[]"]
    by (cases "encode_object_end enc key val level []") simp
  from bl bd cl show ?thesis by simp
qed

text \<open>
  Claim C7. Under the cube dialect the close line of a group is the indentation of its level,
  the token \<open>End_Group\<close> and a line break, with no assignment token and no name: that is what
  \<open>encode_group_end\<close> appends, and a group that is encoded without an exception ends with
  that line, written after the block of its entries.
\<close>

theorem cube_group_close_line:
  assumes "cls enc = IsisCubeLabelEncoder"
    and "is_PVLGroup val"
    and "encode_statement ev enc key val level stream = (s', None)"
  shows "encode_group_end enc key val level s
           = (s @ repeat level indentation @ ''End_Group'' @ newline, None)
       \<and> (\<exists>s2. encode_block ev enc (entries val) (level + 1)
                   (fst (encode_group_begin enc key val level stream)) = (s2, None)
              \<and> s' = s2 @ repeat level indentation @ ''End_Group'' @ newline)"
proof
  show "encode_group_end enc key val level s
          = (s @ repeat level indentation @ ''End_Group'' @ newline, None)"
    using assms(1) by (rule cube_group_end)
next
  obtain s1 e1 where b: "encode_group_begin enc key val level stream = (s1, e1)"
    by (cases "encode_group_begin enc key val level stream")
  obtain s2 e2 where k: "encode_block ev enc (entries val) (level + 1) s1 = (s2, e2)"
    by (cases "encode_block ev enc (entries val) (level + 1) s1")
  from assms(2,3) have g: "encode_group ev enc key val level stream = (s', None)"
    by (simp add: encode_statement.simps)
  have e1: "e1 = None"
    using g b by (cases e1) (simp_all add: encode_group.simps)
  have e2: "e2 = None"
    using g b k e1 by (cases e2) (simp_all add: encode_group.simps)
  have "s' = s2 @ repeat level indentation @ ''End_Group'' @ newline"
    using g b k e1 e2 cube_group_end [OF assms(1), of key val level s2]
    by (simp add: encode_group.simps)
  with b k e2
  show "\<exists>s2. encode_block ev enc (entries val) (level + 1)
                (fst (encode_group_begin enc key val level stream)) = (s2, None)
           \<and> s' = s2 @ repeat level indentation @ ''End_Group'' @ newline"
    by simp
qed

text \<open>The theorem at the group \<open>X = Group({"B": 2})\<close> on level one.\<close>

theorem cube_group_close_line_witness:
  "encode_group_end (new_encoder IsisCubeLabelEncoder) (ascii ''X'')
     (VGroup [(ascii ''B'', VInt 2)]) 1 ''Group = X\<newline>''
     = (''Group = X\<newline>  End_Group\<newline>'', None)
   \<and> encode_statement plain_env (new_encoder IsisCubeLabelEncoder) (ascii ''X'')
       (VGroup [(ascii ''B'', VInt 2)]) 1 []
     = (''  Group = X\<newline>    B = 2\<newline>  End_Group\<newline>'', None)"
proof -
  let ?enc = "new_encoder IsisCubeLabelEncoder"
  let ?val = "VGroup [(ascii ''B'', VInt 2)]"
  have h1: "cls ?enc = IsisCubeLabelEncoder" by (simp add: new_encoder_def)
  have h2: "is_PVLGroup ?val" by simp
  have h3: "encode_statement plain_env ?enc (ascii ''X'') ?val 1 []
              = (''  Group = X\<newline>    B = 2\<newline>  End_Group\<newline>'', None)"
    by (simp add: encode_defs block_simps value_simps line_defs value_defs utf8_encode_ascii)
  from cube_group_close_line [OF h1 h2 h3, of "''Group = X\<newline>''"] h3
  show ?thesis by (simp add: repeat_def indentation_def newline_def)
qed

text \<open>
  A block that is encoded without an exception has encoded each of its entries without an
  exception, one after the other.
\<close>

lemma successful_block_runs_every_statement:
  assumes "encode_block ev enc (pre @ (key, val) # post) level stream = (s', None)"
  shows "\<exists>s1 s2. encode_block ev enc pre level stream = (s1, None)
           \<and> encode_statement ev enc key val level s1 = (s2, None)
           \<and> encode_block ev enc post level s2 = (s', None)"
proof -
  obtain s1 e1 where p: "encode_block ev enc pre level stream = (s1, e1)"
    by (cases "encode_block ev enc pre level stream")
  obtain s2 e2 where st: "encode_statement ev enc key val level s1 = (s2, e2)"
    by (cases "encode_statement ev enc key val level s1")
  from assms p have e1: "e1 = None"
    by (cases e1) (simp_all add: encode_block_append)
  with assms p st have e2: "e2 = None"
    by (cases e2) (simp_all add: encode_block_append)
  with assms p st e1 have "encode_block ev enc post level s2 = (s', None)"
    by (simp add: encode_block_append)
  with p st e1 e2 show ?thesis by simp
qed

subsection \<open>The search for the column\<close>

text \<open>
  A list of key lengths that \<open>_detect_assignment_col\<close> gets for a block has the same maximum
  as the candidates that the specification names for the block.
\<close>

lemma maxl_append: "maxl (xs @ ys) = max (maxl xs) (maxl ys)"
  by (induction xs) simp_all

lemma fold_max_maxl: "fold max xs (x::nat) = max x (maxl xs)"
  by (induction xs arbitrary: x) (simp_all add: max.assoc max.commute max.left_commute)

lemma Max_set_maxl: "xs \<noteq> [] \<Longrightarrow> Max (set xs) = maxl xs"
proof (induction xs)
  case Nil
  then show ?case by simp
next
  case (Cons x xs)
  show ?case
  proof (cases "xs = []")
    case True
    then show ?thesis by simp
  next
    case False
    with Cons.IH show ?thesis by simp
  qed
qed

lemma max_of_maxl: "max_of ls = Inr m \<Longrightarrow> ls \<noteq> [] \<and> m = maxl ls"
  by (cases ls) (auto simp: fold_max_maxl)

lemma key_lengths_Inr_Cons:
  assumes "key_lengths ((k, v) # rest) ind = Inr ls"
  obtains l ls' where "key_length k v ind = Inr l" "key_lengths rest ind = Inr ls'"
    "ls = l # ls'"
  using assms by (auto split: sum.splits)

lemma key_lengths_spec:
  "key_lengths b (d * length indentation) = Inr ls \<Longrightarrow>
   length ls = length b \<and> maxl ls = maxl (spec_candidates d b)"
proof (induction d b arbitrary: ls rule: spec_candidates.induct)
  case (1 d)
  then show ?case by simp
next
  case (2 d k v rest)
  let ?ind = "d * length indentation"
  let ?c = "d * length indentation + length k"
  from "2.prems" obtain l ls' where
    l: "key_length k v ?ind = Inr l" and ls': "key_lengths rest ?ind = Inr ls'"
    and ls: "ls = l # ls'"
    by (rule key_lengths_Inr_Cons)
  from "2.IH"(2) [OF ls'] have r: "length ls' = length rest"
    "maxl ls' = maxl (spec_candidates d rest)" by simp_all
  have "l = maxl (?c # (if is_dict v then spec_candidates (d + 1) (entries v) else []))"
  proof (cases "is_dict v")
    case False
    with l show ?thesis by (simp add: key_length.simps)
  next
    case True
    with l obtain m where
      m: "detect_assignment_col (entries v) (?ind + length indentation) = Inr m"
      and lm: "l = max ?c m"
      by (auto simp: key_length.simps Let_def split: sum.splits)
    from m obtain ls2 where
      ls2: "key_lengths (entries v) (?ind + length indentation) = Inr ls2"
      and mo: "max_of ls2 = Inr m"
      by (auto simp: detect_assignment_col.simps split: sum.splits)
    have "?ind + length indentation = (d + 1) * length indentation" by simp
    with ls2 have "key_lengths (entries v) ((d + 1) * length indentation) = Inr ls2"
      by simp
    from "2.IH"(1) [OF True this]
    have "maxl ls2 = maxl (spec_candidates (d + 1) (entries v))" by simp
    with max_of_maxl [OF mo] lm True show ?thesis by simp
  qed
  with r ls show ?case by (simp add: maxl_append max.assoc)
qed

lemma detect_spec:
  assumes "detect_assignment_col tree 0 = Inr col"
  shows "col = spec_column tree" and "\<forall>c\<in>set (spec_candidates 0 tree). c \<le> col"
proof -
  from assms obtain ls where ls: "key_lengths tree 0 = Inr ls" and mo: "max_of ls = Inr col"
    by (auto simp: detect_assignment_col.simps split: sum.splits)
  from ls have "key_lengths tree (0 * length indentation) = Inr ls" by simp
  from key_lengths_spec [OF this]
  have k: "length ls = length tree" "maxl ls = maxl (spec_candidates 0 tree)" by simp_all
  from max_of_maxl [OF mo] have n: "ls \<noteq> []" and c: "col = maxl ls" by simp_all
  from n k(1) have "tree \<noteq> []" by auto
  then have ne: "spec_candidates 0 tree \<noteq> []" by (cases tree) auto
  from c k(2) Max_set_maxl [OF ne] show "col = spec_column tree"
    by (simp add: spec_column_def)
  then show "\<forall>c\<in>set (spec_candidates 0 tree). c \<le> col"
    by (simp add: spec_column_def)
qed

lemma length_ljust: "length b \<le> width \<Longrightarrow> length (ljust width b) = width"
  by (simp add: ljust_def)

lemma spec_candidates_append:
  "spec_candidates d (b1 @ b2) = spec_candidates d b1 @ spec_candidates d b2"
proof (induction b1)
  case Nil
  show ?case by simp
next
  case (Cons p b1)
  then show ?case by (cases p) simp
qed

lemma entry_candidate:
  "entry_at b d key val \<Longrightarrow>
   (level + d) * length indentation + length key \<in> set (spec_candidates level b)"
proof (induction arbitrary: level rule: entry_at.induct)
  case (entry_here pre key val post)
  show ?case by (simp add: spec_candidates_append)
next
  case (entry_inside g d key val pre k post)
  from entry_inside.IH [of "level + 1"]
  have "(level + Suc d) * length indentation + length key
        \<in> set (spec_candidates (level + 1) (entries g))"
    by simp
  with entry_inside.hyps(1) show ?case by (simp add: spec_candidates_append)
qed

text \<open>
  The search raises exactly when the tree, or a group or a mapping in it, is empty: \<open>max\<close> of
  no value raises \<open>ValueError\<close>. Otherwise it returns the column of the specification.
\<close>

lemma key_lengths_length: "key_lengths b ind = Inr ls \<Longrightarrow> length ls = length b"
proof (induction b arbitrary: ls)
  case Nil
  then show ?case by simp
next
  case (Cons p b)
  then show ?case by (cases p) (auto split: sum.splits)
qed

lemma key_lengths_succeed:
  "nested_nonempty b \<Longrightarrow> \<exists>ls. key_lengths b ind = Inr ls"
proof (induction b arbitrary: ind rule: nested_nonempty.induct)
  case 1
  show ?case by simp
next
  case (2 k v rest)
  from "2.prems" have rest: "nested_nonempty rest" by simp
  from "2.IH"(2) [OF rest] obtain ls' where ls': "key_lengths rest ind = Inr ls'" by blast
  have "\<exists>l. key_length k v ind = Inr l"
  proof (cases "is_dict v")
    case False
    then show ?thesis by (simp add: key_length.simps)
  next
    case True
    with "2.prems" have ne: "entries v \<noteq> []" and nn: "nested_nonempty (entries v)"
      by simp_all
    from "2.IH"(1) [OF True nn] obtain ls2 where
      ls2: "key_lengths (entries v) (ind + length indentation) = Inr ls2" by blast
    from key_lengths_length [OF ls2] ne have "ls2 \<noteq> []" by auto
    then obtain x xs where "ls2 = x # xs" by (cases ls2) auto
    with ls2 True show ?thesis
      by (simp add: key_length.simps detect_assignment_col.simps Let_def)
  qed
  with ls' show ?case by auto
qed

lemma key_lengths_fail:
  "\<not> nested_nonempty b \<Longrightarrow> key_lengths b ind = Inl ValueError"
proof (induction b arbitrary: ind rule: nested_nonempty.induct)
  case 1
  then show ?case by simp
next
  case (2 k v rest)
  show ?case
  proof (cases "is_dict v \<and> \<not> (entries v \<noteq> [] \<and> nested_nonempty (entries v))")
    case True
    then have d: "is_dict v" by simp
    have "detect_assignment_col (entries v) (ind + length indentation) = Inl ValueError"
    proof (cases "entries v = []")
      case True
      then show ?thesis by (simp add: detect_assignment_col.simps)
    next
      case False
      with True have "\<not> nested_nonempty (entries v)" by simp
      from "2.IH"(1) [OF d this] show ?thesis by (simp add: detect_assignment_col.simps)
    qed
    with d show ?thesis by (simp add: key_length.simps Let_def)
  next
    case False
    with "2.prems" have nr: "\<not> nested_nonempty rest" by auto
    from False have "nested_nonempty [(k, v)]" by auto
    from key_lengths_succeed [OF this, of ind] obtain l where
      "key_length k v ind = Inr l" by (auto split: sum.splits)
    with "2.IH"(2) [OF nr, of ind] show ?thesis by simp
  qed
qed

lemma detect_total:
  "detect_assignment_col tree 0
   = (if mappings_nonempty tree then Inr (spec_column tree) else Inl ValueError)"
proof (cases "mappings_nonempty tree")
  case False
  show ?thesis
  proof (cases "tree = []")
    case True
    with False show ?thesis by (simp add: detect_assignment_col.simps)
  next
    case ne: False
    with False have "\<not> nested_nonempty tree" by (simp add: mappings_nonempty_def)
    from key_lengths_fail [OF this] False show ?thesis
      by (simp add: detect_assignment_col.simps)
  qed
next
  case True
  then have "nested_nonempty tree" and ne: "tree \<noteq> []" by (simp_all add: mappings_nonempty_def)
  from key_lengths_succeed [OF this(1)] obtain ls where ls: "key_lengths tree 0 = Inr ls"
    by blast
  from key_lengths_length [OF ls] ne have "ls \<noteq> []" by auto
  then obtain x xs where "ls = x # xs" by (cases ls) auto
  with ls have "\<exists>col. detect_assignment_col tree 0 = Inr col"
    by (simp add: detect_assignment_col.simps)
  then obtain col where c: "detect_assignment_col tree 0 = Inr col" ..
  from detect_spec(1) [OF c] c True show ?thesis by simp
qed

subsection \<open>What a call that raises nothing has written\<close>

lemma raw_assignment_written:
  assumes "encode_raw_assignment enc tok v level s = (s', None)"
  shows "s' = s @ spec_key_slot enc level tok @ assignment @ v @ newline"
proof (cases "cls enc = PDSLabelEncoder")
  case False
  with assms show ?thesis
    by (simp add: encode_raw_assignment_def PVLEncoder_encode_raw_assignment_def indent_def
        stream_write_def spec_key_slot_def)
next
  case True
  with assms obtain col where "assignment_col enc = Some col"
    by (cases "assignment_col enc")
      (simp_all add: encode_raw_assignment_def PDSLabelEncoder_encode_raw_assignment_def)
  with assms True show ?thesis
    by (simp add: encode_raw_assignment_def PDSLabelEncoder_encode_raw_assignment_def
        stream_write_def spec_key_slot_def)
qed

lemma begin_written:
  assumes "(if is_PVLGroup val then encode_group_begin enc key val level s
            else encode_object_begin enc key val level s) = (s', None)"
  shows "\<exists>name. utf8_encode key = Inr name \<and> s' = s @ spec_begin_line enc val name level"
proof (cases "utf8_encode key")
  case (Inl e)
  with assms show ?thesis
    by (simp add: encode_group_begin_def encode_object_begin_def split: if_splits)
next
  case (Inr name)
  with assms
  have "encode_raw_assignment enc
          (if is_PVLGroup val then group (cls enc) else object (cls enc)) name level s
        = (s', None)"
    by (simp add: encode_group_begin_def encode_object_begin_def split: if_splits)
  from raw_assignment_written [OF this] Inr show ?thesis
    by (simp add: spec_begin_line_def)
qed

lemma close_written:
  assumes "(if is_PVLGroup val then encode_group_end enc key val level s
            else encode_object_end enc key val level s) = (s', None)"
    and "utf8_encode key = Inr name"
  shows "s' = s @ spec_close_line enc val name level"
proof (cases "cls enc = IsisCubeLabelEncoder")
  case True
  with assms(1) show ?thesis
    by (simp add: encode_group_end_def encode_object_end_def
        IsisCubeLabelEncoder_encode_group_end_def IsisCubeLabelEncoder_encode_object_end_def
        indent_def stream_write_def spec_close_line_def split: if_splits)
next
  case False
  with assms
  have "encode_raw_assignment enc
          (if is_PVLGroup val then end_group (cls enc) else end_object (cls enc)) name level s
        = (s', None)"
    by (simp add: encode_group_end_def encode_object_end_def PVLEncoder_encode_group_end_def
        PVLEncoder_encode_object_end_def split: if_splits)
  from raw_assignment_written [OF this] False show ?thesis
    by (simp add: spec_close_line_def)
qed

lemma dict_statement_steps:
  assumes "is_dict val" and "encode_statement ev enc key val level stream = (s', None)"
  shows "\<exists>s1 s2.
      (if is_PVLGroup val then encode_group_begin enc key val level stream
       else encode_object_begin enc key val level stream) = (s1, None)
    \<and> encode_block ev enc (entries val) (level + 1) s1 = (s2, None)
    \<and> (if is_PVLGroup val then encode_group_end enc key val level s2
       else encode_object_end enc key val level s2) = (s', None)"
proof (cases "is_PVLGroup val")
  case True
  obtain s1 e1 where b: "encode_group_begin enc key val level stream = (s1, e1)"
    by (cases "encode_group_begin enc key val level stream")
  obtain s2 e2 where k: "encode_block ev enc (entries val) (level + 1) s1 = (s2, e2)"
    by (cases "encode_block ev enc (entries val) (level + 1) s1")
  from assms True have g: "encode_group ev enc key val level stream = (s', None)"
    by (simp add: encode_statement.simps)
  have e1: "e1 = None" using g b by (cases e1) (simp_all add: encode_group.simps)
  have e2: "e2 = None" using g b k e1 by (cases e2) (simp_all add: encode_group.simps)
  from g b k e1 e2 True show ?thesis by (simp add: encode_group.simps)
next
  case False
  obtain s1 e1 where b: "encode_object_begin enc key val level stream = (s1, e1)"
    by (cases "encode_object_begin enc key val level stream")
  obtain s2 e2 where k: "encode_block ev enc (entries val) (level + 1) s1 = (s2, e2)"
    by (cases "encode_block ev enc (entries val) (level + 1) s1")
  from assms False have g: "encode_object ev enc key val level stream = (s', None)"
    by (simp add: encode_statement.simps)
  have e1: "e1 = None" using g b by (cases e1) (simp_all add: encode_object.simps)
  have e2: "e2 = None" using g b k e1 by (cases e2) (simp_all add: encode_object.simps)
  from g b k e1 e2 False show ?thesis by (simp add: encode_object.simps)
qed









lemma block_extends_stream:
  "encode_block ev enc b level s = (s1, r) \<Longrightarrow> \<exists>mid. s1 = s @ mid"
  using encode_block_prefix [of ev enc b level s] by auto

lemma begin_extends_stream:
  "(if is_PVLGroup g then encode_group_begin enc k g level s
    else encode_object_begin enc k g level s) = (s1, r) \<Longrightarrow> \<exists>mid. s1 = s @ mid"
  using encode_group_begin_append [of enc k g level s "[]"]
    encode_object_begin_append [of enc k g level s "[]"]
  by (auto split: if_splits)

lemma close_line_ends: "\<exists>c. spec_close_line enc val name level = c @ newline"
proof (cases "cls enc = IsisCubeLabelEncoder")
  case True
  then have "spec_close_line enc val name level
      = (repeat level indentation
         @ (if is_PVLGroup val then end_group (cls enc) else end_object (cls enc))) @ newline"
    by (simp add: spec_close_line_def)
  then show ?thesis ..
next
  case False
  then have "spec_close_line enc val name level
      = (spec_key_slot enc level
           (if is_PVLGroup val then end_group (cls enc) else end_object (cls enc))
         @ assignment @ name) @ newline"
    by (simp add: spec_close_line_def)
  then show ?thesis ..
qed

lemma begin_line_ends: "\<exists>c. spec_begin_line enc val name level = c @ newline"
proof -
  have "spec_begin_line enc val name level
      = (spec_key_slot enc level (if is_PVLGroup val then group (cls enc) else object (cls enc))
         @ assignment @ name) @ newline"
    by (simp add: spec_begin_line_def)
  then show ?thesis ..
qed

lemma assignment_statement_written:
  assumes "\<not> is_dict val" and "encode_statement ev enc key val level s = (s', None)"
  shows "\<exists>kb vb. utf8_encode key = Inr kb \<and> encode_value ev val = Inr vb
           \<and> s' = s @ spec_key_slot enc level kb @ assignment @ vb @ newline"
proof -
  from assms(1) have ng: "\<not> is_PVLGroup val" by (cases val) simp_all
  with assms have a: "encode_assignment ev enc key val level s = (s', None)"
    by (simp add: encode_statement.simps)
  then obtain kb where kb: "utf8_encode key = Inr kb"
    by (cases "utf8_encode key") (simp_all add: encode_assignment_def)
  with a obtain vb where vb: "encode_value ev val = Inr vb"
    by (cases "encode_value ev val") (simp_all add: encode_assignment_def)
  with a kb have "encode_raw_assignment enc kb vb level s = (s', None)"
    by (simp add: encode_assignment_def)
  from raw_assignment_written [OF this] kb vb show ?thesis by simp
qed

lemma statement_ends_line:
  assumes "encode_statement ev enc key val level s = (s', None)"
  shows "\<exists>f. s' = s @ f @ newline"
proof (cases "is_dict val")
  case False
  from assignment_statement_written [OF False assms] obtain kb vb where
    "s' = s @ spec_key_slot enc level kb @ assignment @ vb @ newline" by blast
  then have "s' = s @ (spec_key_slot enc level kb @ assignment @ vb) @ newline" by simp
  then show ?thesis ..
next
  case True
  from dict_statement_steps [OF True assms] obtain s1 s2 where
    b: "(if is_PVLGroup val then encode_group_begin enc key val level s
         else encode_object_begin enc key val level s) = (s1, None)"
    and k: "encode_block ev enc (entries val) (level + 1) s1 = (s2, None)"
    and c: "(if is_PVLGroup val then encode_group_end enc key val level s2
         else encode_object_end enc key val level s2) = (s', None)"
    by blast
  from begin_written [OF b] obtain name where
    n: "utf8_encode key = Inr name" and s1: "s1 = s @ spec_begin_line enc val name level"
    by blast
  from block_extends_stream [OF k] obtain m where s2: "s2 = s1 @ m" ..
  from close_written [OF c n] have s': "s' = s2 @ spec_close_line enc val name level" .
  from close_line_ends obtain cl where cl: "spec_close_line enc val name level = cl @ newline" ..
  from s1 s2 s' cl
  have "s' = s @ (spec_begin_line enc val name level @ m @ cl) @ newline" by simp
  then show ?thesis ..
qed

lemma block_ends_line:
  "encode_block ev enc b level s = (s', None) \<Longrightarrow> s' = s \<or> (\<exists>f. s' = s @ f @ newline)"
proof (induction b arbitrary: s)
  case Nil
  then show ?case by simp
next
  case (Cons p b)
  obtain key val where p: "p = (key, val)" by (cases p)
  obtain s1 e1 where st: "encode_statement ev enc key val level s = (s1, e1)"
    by (cases "encode_statement ev enc key val level s")
  from Cons.prems p st have e1: "e1 = None" by (cases e1) simp_all
  with Cons.prems p st have r: "encode_block ev enc b level s1 = (s', None)" by simp
  from statement_ends_line st e1 obtain f where f: "s1 = s @ f @ newline" by blast
  from Cons.IH [OF r] show ?case
  proof
    assume "s' = s1"
    with f show ?thesis by blast
  next
    assume "\<exists>g. s' = s1 @ g @ newline"
    then obtain g where "s' = s1 @ g @ newline" ..
    with f have "s' = s @ (f @ newline @ g) @ newline" by simp
    then show ?thesis by blast
  qed
qed

lemma entry_written:
  assumes "entry_at b d key val"
    and "encode_block ev enc b level s = (s', None)"
  shows "\<exists>s1 s2 after. (s1 = s \<or> (\<exists>f. s1 = s @ f @ newline))
           \<and> encode_statement ev enc key val (level + d) s1 = (s2, None)
           \<and> s' = s2 @ after"
  using assms
proof (induction arbitrary: level s s' rule: entry_at.induct)
  case (entry_here pre key val post)
  from successful_block_runs_every_statement [OF entry_here.prems] obtain s1 s2 where
    p: "encode_block ev enc pre level s = (s1, None)"
    and st: "encode_statement ev enc key val level s1 = (s2, None)"
    and r: "encode_block ev enc post level s2 = (s', None)"
    by blast
  from block_extends_stream [OF r] obtain after where "s' = s2 @ after" ..
  with block_ends_line [OF p] st show ?case by auto
next
  case (entry_inside g d key val pre k post)
  from successful_block_runs_every_statement [OF entry_inside.prems] obtain s1 s2 where
    p: "encode_block ev enc pre level s = (s1, None)"
    and st: "encode_statement ev enc k g level s1 = (s2, None)"
    and r: "encode_block ev enc post level s2 = (s', None)"
    by blast
  from dict_statement_steps [OF entry_inside.hyps(1) st] obtain sb s3 where
    b: "(if is_PVLGroup g then encode_group_begin enc k g level s1
         else encode_object_begin enc k g level s1) = (sb, None)"
    and kk: "encode_block ev enc (entries g) (level + 1) sb = (s3, None)"
    and c: "(if is_PVLGroup g then encode_group_end enc k g level s3
         else encode_object_end enc k g level s3) = (s2, None)"
    by blast
  from entry_inside.IH [OF kk] obtain t1 t2 after where
    t1: "t1 = sb \<or> (\<exists>f. t1 = sb @ f @ newline)"
    and t: "encode_statement ev enc key val (level + 1 + d) t1 = (t2, None)"
    and s3: "s3 = t2 @ after"
    by blast
  from block_extends_stream [OF p] obtain m1 where m1: "s1 = s @ m1" ..
  from begin_written [OF b] obtain name where
    n: "utf8_encode k = Inr name" and sb: "sb = s1 @ spec_begin_line enc g name level"
    by blast
  from begin_line_ends obtain bl where bl: "spec_begin_line enc g name level = bl @ newline" ..
  from close_written [OF c n] have s2: "s2 = s3 @ spec_close_line enc g name level" .
  from block_extends_stream [OF r] obtain m2 where m2: "s' = s2 @ m2" ..
  have "\<exists>f. t1 = s @ f @ newline"
  proof -
    from t1 show ?thesis
    proof
      assume "t1 = sb"
      with sb m1 bl have "t1 = s @ (m1 @ bl) @ newline" by simp
      then show ?thesis ..
    next
      assume "\<exists>f. t1 = sb @ f @ newline"
      then obtain f where "t1 = sb @ f @ newline" ..
      with sb m1 bl have "t1 = s @ (m1 @ bl @ newline @ f) @ newline" by simp
      then show ?thesis ..
    qed
  qed
  moreover from t have "encode_statement ev enc key val (level + Suc d) t1 = (t2, None)"
    by simp
  moreover from s3 s2 m2
  have "s' = t2 @ (after @ spec_close_line enc g name level @ m2)" by simp
  ultimately show ?case by blast
qed

lemma length_repeat_indentation:
  "length (repeat level indentation) = level * length indentation"
  by (induction level) (simp_all add: repeat_def)

lemma pds_key_slot:
  "cls enc = PDSLabelEncoder \<Longrightarrow>
   spec_key_slot (enc\<lparr>assignment_col := Some col\<rparr>) level tok
   = ljust col (repeat level indentation @ tok)"
  by (simp add: spec_key_slot_def)

text \<open>
  A call of \<open>encode\<close> that raises nothing has encoded the block of the tree at level 0 and then
  written the end statement; under \<open>PDSLabelEncoder\<close> the column was found first.
\<close>

lemma encode_success:
  assumes "encode ev enc tree stream = (enc', out, None)"
  shows "(\<exists>s. encode_block ev enc' tree 0 stream = (s, None)
            \<and> out = s @ end_statement (cls enc'))
       \<and> (if cls enc = PDSLabelEncoder
          then mappings_nonempty tree
               \<and> enc' = enc\<lparr>assignment_col := Some (spec_column tree)\<rparr>
          else enc' = enc)"
proof -
  have p: "enc' = e \<and> (\<exists>s. encode_block ev e tree 0 stream = (s, None)
                          \<and> out = s @ end_statement (cls e))"
    if "PVLEncoder_encode ev e tree stream = (enc', out, None)" for e
  proof -
    obtain s r where b: "encode_block ev e tree 0 stream = (s, r)"
      by (cases "encode_block ev e tree 0 stream")
    with that show ?thesis
      by (cases r) (auto simp: PVLEncoder_encode_def stream_write_def)
  qed
  show ?thesis
  proof (cases "cls enc = PDSLabelEncoder")
    case False
    with assms have "PVLEncoder_encode ev enc tree stream = (enc', out, None)"
      by (simp add: encode_def)
    from p [OF this] False show ?thesis by simp
  next
    case True
    have m: "mappings_nonempty tree"
    proof (rule ccontr)
      assume "\<not> mappings_nonempty tree"
      with assms True show False
        by (simp add: encode_def PDSLabelEncoder_encode_def detect_total)
    qed
    with assms True
    have "PVLEncoder_encode ev (enc\<lparr>assignment_col := Some (spec_column tree)\<rparr>) tree stream
          = (enc', out, None)"
      by (simp add: encode_def PDSLabelEncoder_encode_def detect_total)
    from p [OF this] True m show ?thesis by simp
  qed
qed

text \<open>
  The statement of a group or an object that raises nothing appends the begin line, what the
  block of the entries writes one level deeper, and the close line.
\<close>

lemma dict_statement_written:
  assumes "is_dict val"
    and "encode_statement ev enc key val level stream = (s', None)"
  shows "\<exists>name body.
           utf8_encode key = Inr name
         \<and> encode_block ev enc (entries val) (level + 1) [] = (body, None)
         \<and> s' = stream @ spec_begin_line enc val name level @ body
                  @ spec_close_line enc val name level"
proof -
  from dict_statement_steps [OF assms] obtain s1 s2 where
    b: "(if is_PVLGroup val then encode_group_begin enc key val level stream
         else encode_object_begin enc key val level stream) = (s1, None)"
    and k: "encode_block ev enc (entries val) (level + 1) s1 = (s2, None)"
    and c: "(if is_PVLGroup val then encode_group_end enc key val level s2
         else encode_object_end enc key val level s2) = (s', None)"
    by blast
  from begin_written [OF b] obtain name where
    n: "utf8_encode key = Inr name" and s1: "s1 = stream @ spec_begin_line enc val name level"
    by blast
  obtain body where
    bd: "encode_block ev enc (entries val) (level + 1) [] = (body, None)" and s2: "s2 = s1 @ body"
    using k encode_block_prefix [of ev enc "entries val" "level + 1" s1]
    by (cases "encode_block ev enc (entries val) (level + 1) []") simp
  from close_written [OF c n] have s': "s' = s2 @ spec_close_line enc val name level" .
  have w: "s' = stream @ spec_begin_line enc val name level @ body
            @ spec_close_line enc val name level"
    using s1 s2 s' by simp
  show ?thesis
    apply (rule exI [of _ name])
    apply (rule exI [of _ body])
    apply (intro conjI)
      apply (rule n)
     apply (rule bd)
    apply (rule w)
    done
qed

text \<open>
  So, when \<open>encode\<close> raises nothing, every group and every object of the tree has its statement
  run at the level of its nesting depth, from a stream that is at the start of a line, and the
  output holds what the statement wrote.
\<close>

lemma dict_entry_written:
  assumes "encode ev enc tree stream = (enc', out, None)"
    and "entry_at tree level key val"
    and "is_dict val"
  shows "\<exists>front name body after.
           utf8_encode key = Inr name
         \<and> encode_block ev enc' (entries val) (level + 1) [] = (body, None)
         \<and> encode_statement ev enc' key val level front
             = (front @ spec_begin_line enc' val name level @ body
                  @ spec_close_line enc' val name level, None)
         \<and> out = front @ spec_begin_line enc' val name level @ body
                   @ spec_close_line enc' val name level @ after
         \<and> (front = stream \<or> (\<exists>f. front = stream @ f @ newline))"
proof -
  from encode_success [OF assms(1)] obtain s where
    b: "encode_block ev enc' tree 0 stream = (s, None)"
    and out: "out = s @ end_statement (cls enc')"
    by blast
  from entry_written [OF assms(2) b] obtain s1 s2 tl where
    s1: "s1 = stream \<or> (\<exists>f. s1 = stream @ f @ newline)"
    and st: "encode_statement ev enc' key val (0 + level) s1 = (s2, None)"
    and s: "s = s2 @ tl"
    by blast
  from st have st': "encode_statement ev enc' key val level s1 = (s2, None)" by simp
  from dict_statement_written [OF assms(3) st'] obtain name body where
    n: "utf8_encode key = Inr name"
    and bd: "encode_block ev enc' (entries val) (level + 1) [] = (body, None)"
    and s2: "s2 = s1 @ spec_begin_line enc' val name level @ body
               @ spec_close_line enc' val name level"
    by blast
  have x: "encode_statement ev enc' key val level s1
      = (s1 @ spec_begin_line enc' val name level @ body
           @ spec_close_line enc' val name level, None)"
    using st' s2 by simp
  have w: "out = s1 @ spec_begin_line enc' val name level @ body
      @ spec_close_line enc' val name level @ (tl @ end_statement (cls enc'))"
    using out s s2 by simp
  show ?thesis
    apply (rule exI [of _ s1])
    apply (rule exI [of _ name])
    apply (rule exI [of _ body])
    apply (rule exI [of _ "tl @ end_statement (cls enc')"])
    apply (intro conjI)
        apply (rule n)
       apply (rule bd)
      apply (rule x)
     apply (rule w)
    apply (rule s1)
    done
qed

text \<open>The same for an entry that is no group and no object: its statement writes one line.\<close>

lemma assignment_entry_written:
  assumes "encode ev enc tree stream = (enc', out, None)"
    and "entry_at tree level key val"
    and "\<not> is_dict val"
  shows "\<exists>front kb vb after.
           utf8_encode key = Inr kb \<and> encode_value ev val = Inr vb
         \<and> out = front @ spec_key_slot enc' level kb @ assignment @ vb @ newline @ after
         \<and> (front = stream \<or> (\<exists>f. front = stream @ f @ newline))"
proof -
  from encode_success [OF assms(1)] obtain s where
    b: "encode_block ev enc' tree 0 stream = (s, None)"
    and out: "out = s @ end_statement (cls enc')"
    by blast
  from entry_written [OF assms(2) b] obtain s1 s2 tl where
    s1: "s1 = stream \<or> (\<exists>f. s1 = stream @ f @ newline)"
    and st: "encode_statement ev enc' key val (0 + level) s1 = (s2, None)"
    and s: "s = s2 @ tl"
    by blast
  from st have st': "encode_statement ev enc' key val level s1 = (s2, None)" by simp
  from assignment_statement_written [OF assms(3) st'] obtain kb vb where
    kb: "utf8_encode key = Inr kb" and vb: "encode_value ev val = Inr vb"
    and s2: "s2 = s1 @ spec_key_slot enc' level kb @ assignment @ vb @ newline"
    by blast
  have w: "out = s1 @ spec_key_slot enc' level kb @ assignment @ vb @ newline
      @ (tl @ end_statement (cls enc'))"
    using out s s2 by simp
  show ?thesis
    apply (rule exI [of _ s1])
    apply (rule exI [of _ kb])
    apply (rule exI [of _ vb])
    apply (rule exI [of _ "tl @ end_statement (cls enc')"])
    apply (intro conjI)
       apply (rule kb)
      apply (rule vb)
     apply (rule w)
    apply (rule s1)
    done
qed

subsection \<open>Every begin line has its close line\<close>




subsection \<open>A value that cannot be encoded\<close>

text \<open>
  A block is encoded entry by entry, and an exception ends it: the entries after the failing
  one are never reached. An assignment whose value cannot be encoded writes nothing, since
  the value is encoded before the line is written. When the block of a group or an object
  raises, the exception goes through \<open>encode_group\<close> or \<open>encode_object\<close>, and no close line is
  written.
\<close>

lemma default_raises:
  "\<not> is_string v \<Longrightarrow> \<not> is_int_or_float v \<Longrightarrow> v \<noteq> VNone \<Longrightarrow> \<not> is_list v \<Longrightarrow> \<not> is_set v
   \<Longrightarrow> encode_simple_value ev v
       = Inl (TypeError (repr ev v @ ascii '' is not serializable''))"
  by (cases v) (simp_all add: encode_simple_value.simps default_def)

lemma encode_value_other:
  "encode_value ev (VOther n)
   = Inl (TypeError (repr ev (VOther n) @ ascii '' is not serializable''))"
  by (simp add: encode_value.simps default_raises)

lemma failing_assignment_writes_nothing:
  assumes "\<not> is_dict val" and "utf8_encode key = Inr k" and "encode_value ev val = Inl e"
  shows "encode_statement ev enc key val level s = (s, Some e)"
proof -
  from assms(1) have "\<not> is_PVLGroup val" by (cases val) simp_all
  with assms show ?thesis
    by (simp add: encode_statement.simps encode_assignment_def)
qed

lemma failing_statement_stops_block:
  assumes "encode_block ev enc pre level stream = (s1, None)"
    and "encode_statement ev enc key val level s1 = (s2, Some e)"
  shows "encode_block ev enc (pre @ (key, val) # post) level stream = (s2, Some e)"
  using assms by (simp add: encode_block_append)

lemma failing_block_leaves_group_open:
  assumes "is_dict val"
    and "(if is_PVLGroup val then encode_group_begin enc key val level stream
          else encode_object_begin enc key val level stream) = (s1, None)"
    and "encode_block ev enc (entries val) (level + 1) s1 = (s2, Some e)"
  shows "encode_statement ev enc key val level stream = (s2, Some e)"
  using assms
  by (cases "is_PVLGroup val")
    (simp_all add: encode_statement.simps encode_group.simps encode_object.simps)

lemma failure_where_reached:
  assumes "reaches ev enc b level s key val level' s1"
    and "encode_statement ev enc key val level' s1 = (s2, Some e)"
  shows "encode_block ev enc b level s = (s2, Some e)"
  using assms
proof (induction rule: reaches.induct)
  case (reaches_here pre level s s1 key val post)
  then show ?case by (simp add: failing_statement_stops_block)
next
  case (reaches_inside pre level s s1 g k sb key val level' s' post)
  from reaches_inside.IH [OF reaches_inside.prems]
  have "encode_block ev enc (entries g) (level + 1) sb = (s2, Some e)" .
  with reaches_inside.hyps(2,3)
  have "encode_statement ev enc k g level s1 = (s2, Some e)"
    by (rule failing_block_leaves_group_open)
  with reaches_inside.hyps(1) show ?case by (rule failing_statement_stops_block)
qed

lemma reached_stream_extends:
  "reaches ev enc b level s key val level' s1 \<Longrightarrow> \<exists>mid. s1 = s @ mid"
proof (induction rule: reaches.induct)
  case (reaches_here pre level s s1 key val post)
  then show ?case by (rule block_extends_stream)
next
  case (reaches_inside pre level s s1 g k sb key val level' s' post)
  from block_extends_stream [OF reaches_inside.hyps(1)] obtain m1 where "s1 = s @ m1" ..
  moreover from begin_extends_stream [OF reaches_inside.hyps(3)] obtain m2 where
    "sb = s1 @ m2" ..
  moreover from reaches_inside.IH obtain m3 where "s' = sb @ m3" ..
  ultimately have "s' = s @ (m1 @ m2 @ m3)" by simp
  then show ?case ..
qed

text \<open>
  Claim C4 as it is stated: on every tree that holds an entry whose value is of no class that
  \<open>encode_simple_value\<close> knows, \<open>encode\<close> raises the \<open>TypeError\<close> of \<open>default\<close>. It fails under
  \<open>PDSLabelEncoder\<close> for a tree with an empty group: for the module with the entry \<open>X\<close> of
  such a value and the empty group \<open>G\<close>, the search for the column raises \<open>ValueError\<close>
  before anything is encoded, and no \<open>TypeError\<close> is raised.
\<close>

theorem pds_empty_group_raises_value_error_counterexample:
  "encode plain_env (new_encoder PDSLabelEncoder)
     [(ascii ''X'', VOther ''date''), (ascii ''G'', VGroup [])] []
   = (new_encoder PDSLabelEncoder, [], Some ValueError)"
  by (simp add: encode_defs column_simps length_ascii)

text \<open>
  Claim C4, amended. Let an entry of the tree, at the top or inside groups and objects, hold
  a value of no class that \<open>encode_simple_value\<close> knows, and let its key be encodable. Let the
  run come to that entry: the entries before it, on its own level and on the levels of the
  groups and objects around it, are encoded without an exception, and under
  \<open>PDSLabelEncoder\<close> the tree and every group and mapping in it is non-empty, so that the
  column is found. Then \<open>encode\<close> raises the \<open>TypeError\<close> of \<open>default\<close>, which carries \<open>repr\<close> of
  the value. The statement of the entry writes nothing, and the stream that \<open>encode\<close> leaves is
  the stream as it was when the run came to the entry: the stream of the call followed by
  what was written for the entries before, and for the begin lines of the enclosing groups
  and objects, which stay without a close line. Nothing is written for an entry after it,
  and no end statement.
\<close>

theorem unsupported_value_raises_where_reached:
  assumes "if cls enc = PDSLabelEncoder
           then mappings_nonempty tree
                \<and> enc' = enc\<lparr>assignment_col := Some (spec_column tree)\<rparr>
           else enc' = enc"
    and "reaches ev enc' tree 0 stream key (VOther n) level s1"
    and "utf8_encode key = Inr k"
  shows "encode ev enc tree stream
           = (enc', s1, Some (TypeError (repr ev (VOther n) @ ascii '' is not serializable'')))
       \<and> encode_statement ev enc' key (VOther n) level s1
           = (s1, Some (TypeError (repr ev (VOther n) @ ascii '' is not serializable'')))
       \<and> (\<exists>written. s1 = stream @ written)"
proof -
  let ?e = "TypeError (repr ev (VOther n) @ ascii '' is not serializable'')"
  have st: "encode_statement ev enc' key (VOther n) level s1 = (s1, Some ?e)"
    using assms(3) by (intro failing_assignment_writes_nothing) (simp_all add: encode_value_other)
  with assms(2) have b: "encode_block ev enc' tree 0 stream = (s1, Some ?e)"
    by (rule failure_where_reached)
  have "encode ev enc tree stream = (enc', s1, Some ?e)"
  proof (cases "cls enc = PDSLabelEncoder")
    case True
    with assms(1) b show ?thesis
      by (simp add: encode_def PDSLabelEncoder_encode_def PVLEncoder_encode_def detect_total)
  next
    case False
    with assms(1) b show ?thesis
      by (simp add: encode_def PVLEncoder_encode_def)
  qed
  with st reached_stream_extends [OF assms(2)] show ?thesis by simp
qed

text \<open>
  The theorem at \<open>{"A": 1, "G": Group({"B": 2, "X": <a date>, "C": 3}), "D": 4}\<close> under
  \<open>PDSLabelEncoder\<close>: the column is 3, the stream holds the line of \<open>A\<close>, the begin line of \<open>G\<close>
  and the line of \<open>B\<close>, and nothing of \<open>X\<close>, \<open>C\<close>, the close line of \<open>G\<close> or \<open>D\<close>.
\<close>

theorem unsupported_value_raises_where_reached_witness:
  "(if cls (new_encoder PDSLabelEncoder) = PDSLabelEncoder
    then mappings_nonempty
           [(ascii ''A'', VInt 1),
            (ascii ''G'', VGroup [(ascii ''B'', VInt 2), (ascii ''X'', VOther ''date''),
                                  (ascii ''C'', VInt 3)]),
            (ascii ''D'', VInt 4)]
         \<and> \<lparr>cls = PDSLabelEncoder, assignment_col = Some 3\<rparr>
           = (new_encoder PDSLabelEncoder)\<lparr>assignment_col := Some (spec_column
               [(ascii ''A'', VInt 1),
                (ascii ''G'', VGroup [(ascii ''B'', VInt 2), (ascii ''X'', VOther ''date''),
                                      (ascii ''C'', VInt 3)]),
                (ascii ''D'', VInt 4)])\<rparr>
    else \<lparr>cls = PDSLabelEncoder, assignment_col = Some 3\<rparr> = new_encoder PDSLabelEncoder)
   \<and> reaches plain_env \<lparr>cls = PDSLabelEncoder, assignment_col = Some 3\<rparr>
     [(ascii ''A'', VInt 1),
      (ascii ''G'', VGroup [(ascii ''B'', VInt 2), (ascii ''X'', VOther ''date''),
                            (ascii ''C'', VInt 3)]),
      (ascii ''D'', VInt 4)] 0 [] (ascii ''X'') (VOther ''date'') 1
     ''A   = 1\<newline>GROUP = G\<newline>  B = 2\<newline>''
   \<and> utf8_encode (ascii ''X'') = Inr ''X''
   \<and> encode plain_env (new_encoder PDSLabelEncoder)
     [(ascii ''A'', VInt 1),
      (ascii ''G'', VGroup [(ascii ''B'', VInt 2), (ascii ''X'', VOther ''date''),
                            (ascii ''C'', VInt 3)]),
      (ascii ''D'', VInt 4)] []
   = (\<lparr>cls = PDSLabelEncoder, assignment_col = Some 3\<rparr>,
      ''A   = 1\<newline>GROUP = G\<newline>  B = 2\<newline>'',
      Some (TypeError (ascii ''<object> is not serializable'')))"
proof -
  let ?enc = "new_encoder PDSLabelEncoder"
  let ?enc' = "\<lparr>cls = PDSLabelEncoder, assignment_col = Some 3\<rparr>"
  let ?g = "VGroup [(ascii ''B'', VInt 2), (ascii ''X'', VOther ''date''), (ascii ''C'', VInt 3)]"
  let ?tree = "[(ascii ''A'', VInt 1), (ascii ''G'', ?g), (ascii ''D'', VInt 4)]"
  have h1: "if cls ?enc = PDSLabelEncoder
            then mappings_nonempty ?tree
                 \<and> ?enc' = ?enc\<lparr>assignment_col := Some (spec_column ?tree)\<rparr>
            else ?enc' = ?enc"
    by (simp add: new_encoder_def mappings_nonempty_def spec_column_def length_ascii
        indentation_def)
  have a: "encode_block plain_env ?enc' [(ascii ''A'', VInt 1)] 0 [] = (''A   = 1\<newline>'', None)"
    by (simp add: block_simps value_simps line_defs value_defs utf8_encode_ascii
        eval_nat_numeral)
  have b: "(if is_PVLGroup ?g then encode_group_begin ?enc' (ascii ''G'') ?g 0 ''A   = 1\<newline>''
            else encode_object_begin ?enc' (ascii ''G'') ?g 0 ''A   = 1\<newline>'')
           = (''A   = 1\<newline>GROUP = G\<newline>'', None)"
    by (simp add: line_defs utf8_encode_ascii eval_nat_numeral)
  have c: "encode_block plain_env ?enc' [(ascii ''B'', VInt 2)] (0 + 1)
             ''A   = 1\<newline>GROUP = G\<newline>''
           = (''A   = 1\<newline>GROUP = G\<newline>  B = 2\<newline>'', None)"
    by (simp add: block_simps value_simps line_defs value_defs utf8_encode_ascii
        eval_nat_numeral)
  have "reaches plain_env ?enc' ([(ascii ''B'', VInt 2)] @ (ascii ''X'', VOther ''date'')
          # [(ascii ''C'', VInt 3)]) (0 + 1) ''A   = 1\<newline>GROUP = G\<newline>'' (ascii ''X'')
          (VOther ''date'') (0 + 1) ''A   = 1\<newline>GROUP = G\<newline>  B = 2\<newline>''"
    using c by (rule reaches_here)
  then have "reaches plain_env ?enc' (entries ?g) (0 + 1) ''A   = 1\<newline>GROUP = G\<newline>''
      (ascii ''X'') (VOther ''date'') (0 + 1) ''A   = 1\<newline>GROUP = G\<newline>  B = 2\<newline>''"
    by simp
  with a _ b
  have "reaches plain_env ?enc' ([(ascii ''A'', VInt 1)] @ (ascii ''G'', ?g)
          # [(ascii ''D'', VInt 4)]) 0 [] (ascii ''X'') (VOther ''date'') (0 + 1)
          ''A   = 1\<newline>GROUP = G\<newline>  B = 2\<newline>''"
    by (rule reaches_inside) simp
  then have h2: "reaches plain_env ?enc' ?tree 0 [] (ascii ''X'') (VOther ''date'') 1
      ''A   = 1\<newline>GROUP = G\<newline>  B = 2\<newline>''"
    by simp
  have h3: "utf8_encode (ascii ''X'') = Inr ''X''" by (simp add: utf8_encode_ascii)
  have h5: "repr plain_env (VOther ''date'') @ ascii '' is not serializable''
            = ascii ''<object> is not serializable''"
    by (simp add: plain_env_def ascii_def)
  from unsupported_value_raises_where_reached [OF h1 h2 h3]
  have h4: "encode plain_env ?enc ?tree []
      = (?enc', ''A   = 1\<newline>GROUP = G\<newline>  B = 2\<newline>'',
         Some (TypeError (ascii ''<object> is not serializable'')))"
    by (simp only: h5)
  show ?thesis
    by (intro conjI) (rule h1, rule h2, rule h3, rule h4)
qed

subsection \<open>What a call leaves on the encoder\<close>

lemma fst_PVLEncoder_encode: "fst (PVLEncoder_encode ev enc tree stream) = enc"
  by (cases "encode_block ev enc tree 0 stream")
    (simp add: PVLEncoder_encode_def split: option.splits)

text \<open>
  Claim C6 as it is stated: a call to \<open>encode\<close> stores no value that it computes on the encoder
  instance. It fails for \<open>PDSLabelEncoder\<close>: after encoding \<open>{"A": 1}\<close> with a new instance, the
  attribute \<open>assignment_col\<close> of the instance holds the column, 1.
\<close>

theorem encode_assigns_attribute_counterexample:
  "fst (encode plain_env (new_encoder PDSLabelEncoder) [(ascii ''A'', VInt 1)] [])
     = \<lparr>cls = PDSLabelEncoder, assignment_col = Some 1\<rparr>
   \<and> fst (encode plain_env (new_encoder PDSLabelEncoder) [(ascii ''A'', VInt 1)] [])
     \<noteq> new_encoder PDSLabelEncoder"
  by (simp add: encode_defs column_simps block_simps value_simps line_defs value_defs
      utf8_encode_ascii length_ascii)

text \<open>
  Claim C6, amended. A call to \<open>encode\<close> never changes the class of the encoder, which fixes
  its tokens. The encoders of the default and of the cube dialect are left as they were.
  \<open>PDSLabelEncoder.encode\<close> assigns the column that it has computed to the attribute
  \<open>assignment_col\<close> of the instance; when the computation of the column raises, the instance
  is left as it was. The column is not handed to the methods that write: the
  \<open>encode_raw_assignment\<close> of \<open>PDSLabelEncoder\<close> pads to the column that the attribute holds,
  and raises \<open>AttributeError\<close> when the attribute was never assigned.
\<close>

theorem encode_changes_only_assignment_col:
  "fst (encode ev enc tree stream)
     = (if cls enc = PDSLabelEncoder
        then (case detect_assignment_col tree 0 of
                Inl e \<Rightarrow> enc
              | Inr col \<Rightarrow> enc\<lparr>assignment_col := Some col\<rparr>)
        else enc)
   \<and> cls (fst (encode ev enc tree stream)) = cls enc
   \<and> encode_raw_assignment \<lparr>cls = PDSLabelEncoder, assignment_col = Some col\<rparr> key val level s
     = (s @ ljust col (repeat level indentation @ key) @ assignment @ val @ newline, None)
   \<and> encode_raw_assignment \<lparr>cls = PDSLabelEncoder, assignment_col = None\<rparr> key val level s
     = (s, Some AttributeError)"
  by (simp add: encode_def PDSLabelEncoder_encode_def fst_PVLEncoder_encode
      encode_raw_assignment_def PDSLabelEncoder_encode_raw_assignment_def stream_write_def
      split: sum.splits)

subsection \<open>The same tree gives the same bytes\<close>

text \<open>
  Under the default and the cube dialect no method reads \<open>assignment_col\<close>; under
  \<open>PDSLabelEncoder\<close> the attribute is assigned before it is read. So what \<open>encode\<close> writes and
  raises depends on the class of the encoder only, not on what an earlier call has left on
  the instance.
\<close>

lemma raw_assignment_ignores_col:
  "cls enc \<noteq> PDSLabelEncoder \<Longrightarrow>
   encode_raw_assignment (enc\<lparr>assignment_col := a\<rparr>) k v level s
   = encode_raw_assignment enc k v level s"
  by (simp add: encode_raw_assignment_def PVLEncoder_encode_raw_assignment_def)

lemma lines_ignore_col:
  assumes "cls enc \<noteq> PDSLabelEncoder"
  shows "encode_group_begin (enc\<lparr>assignment_col := a\<rparr>) key val level s
         = encode_group_begin enc key val level s"
    and "encode_object_begin (enc\<lparr>assignment_col := a\<rparr>) key val level s
         = encode_object_begin enc key val level s"
    and "encode_group_end (enc\<lparr>assignment_col := a\<rparr>) key val level s
         = encode_group_end enc key val level s"
    and "encode_object_end (enc\<lparr>assignment_col := a\<rparr>) key val level s
         = encode_object_end enc key val level s"
    and "encode_assignment ev (enc\<lparr>assignment_col := a\<rparr>) key val level s
         = encode_assignment ev enc key val level s"
  using assms
  by (simp_all add: encode_group_begin_def encode_object_begin_def encode_group_end_def
      encode_object_end_def encode_assignment_def PVLEncoder_encode_group_end_def
      PVLEncoder_encode_object_end_def IsisCubeLabelEncoder_encode_group_end_def
      IsisCubeLabelEncoder_encode_object_end_def raw_assignment_ignores_col
      indent_def stream_write_def split: sum.splits)

lemma blocks_ignore_col:
  "cls enc \<noteq> PDSLabelEncoder \<Longrightarrow>
   encode_block ev (enc\<lparr>assignment_col := a\<rparr>) b level stream1
   = encode_block ev enc b level stream1"
  "cls enc \<noteq> PDSLabelEncoder \<Longrightarrow>
   encode_statement ev (enc\<lparr>assignment_col := a\<rparr>) key val level2 stream2
   = encode_statement ev enc key val level2 stream2"
  "cls enc \<noteq> PDSLabelEncoder \<Longrightarrow>
   encode_group ev (enc\<lparr>assignment_col := a\<rparr>) key3 val3 level3 stream3
   = encode_group ev enc key3 val3 level3 stream3"
  "cls enc \<noteq> PDSLabelEncoder \<Longrightarrow>
   encode_object ev (enc\<lparr>assignment_col := a\<rparr>) key4 val4 level4 stream4
   = encode_object ev enc key4 val4 level4 stream4"
proof (induction ev enc b level stream1 and ev enc key val level2 stream2
    and ev enc key3 val3 level3 stream3 and ev enc key4 val4 level4 stream4
    rule: encode_block_encode_statement_encode_group_encode_object.induct)
  case (1 ev enc level stream)
  show ?case by simp
next
  case (2 ev enc key val rest level stream)
  obtain s1 e1 where st: "encode_statement ev enc key val level stream = (s1, e1)"
    by (cases "encode_statement ev enc key val level stream")
  with "2.IH"(1) "2.prems"
  have st': "encode_statement ev (enc\<lparr>assignment_col := a\<rparr>) key val level stream = (s1, e1)"
    by simp
  show ?case
  proof (cases e1)
    case None
    from "2.IH"(2) [of s1 e1] st None "2.prems"
    have "encode_block ev (enc\<lparr>assignment_col := a\<rparr>) rest level s1
          = encode_block ev enc rest level s1"
      by simp
    with st st' None show ?thesis by simp
  next
    case (Some e)
    with st st' show ?thesis by simp
  qed
next
  case (3 ev enc key val level stream)
  show ?case
  proof (cases "is_PVLGroup val")
    case True
    with "3.IH"(1) "3.prems" show ?thesis by (simp add: encode_statement.simps)
  next
    case False
    show ?thesis
    proof (cases "is_dict val")
      case True
      with "3.IH"(2) "3.prems" False show ?thesis by (simp add: encode_statement.simps)
    next
      case nd: False
      with False "3.prems" show ?thesis
        by (simp add: encode_statement.simps lines_ignore_col)
    qed
  qed
next
  case (4 ev enc key val level stream)
  obtain s1 e1 where b: "encode_group_begin enc key val level stream = (s1, e1)"
    by (cases "encode_group_begin enc key val level stream")
  show ?case
  proof (cases e1)
    case (Some e)
    with b "4.prems" show ?thesis by (simp add: encode_group.simps lines_ignore_col)
  next
    case None
    from "4.IH" [of s1 e1] b None "4.prems"
    have "encode_block ev (enc\<lparr>assignment_col := a\<rparr>) (entries val) (level + 1) s1
          = encode_block ev enc (entries val) (level + 1) s1"
      by simp
    with b None "4.prems" show ?thesis by (simp add: encode_group.simps lines_ignore_col)
  qed
next
  case (5 ev enc key val level stream)
  obtain s1 e1 where b: "encode_object_begin enc key val level stream = (s1, e1)"
    by (cases "encode_object_begin enc key val level stream")
  show ?case
  proof (cases e1)
    case (Some e)
    with b "5.prems" show ?thesis by (simp add: encode_object.simps lines_ignore_col)
  next
    case None
    from "5.IH" [of s1 e1] b None "5.prems"
    have "encode_block ev (enc\<lparr>assignment_col := a\<rparr>) (entries val) (level + 1) s1
          = encode_block ev enc (entries val) (level + 1) s1"
      by simp
    with b None "5.prems" show ?thesis by (simp add: encode_object.simps lines_ignore_col)
  qed
qed

lemma encode_same_class:
  assumes "cls enc = cls enc'"
  shows "snd (encode ev enc tree stream) = snd (encode ev enc' tree stream)"
proof (cases "cls enc = PDSLabelEncoder")
  case True
  have eq: "enc\<lparr>assignment_col := Some col\<rparr> = enc'\<lparr>assignment_col := Some col\<rparr>" for col
    using assms by (cases enc; cases enc') simp
  from True assms have "cls enc' = PDSLabelEncoder" by simp
  with True show ?thesis
    by (cases "detect_assignment_col tree 0")
      (simp_all add: encode_def PDSLabelEncoder_encode_def eq)
next
  case False
  have e: "enc' = enc\<lparr>assignment_col := assignment_col enc'\<rparr>"
    using assms by (cases enc; cases enc') simp
  have "encode_block ev enc' tree 0 stream = encode_block ev enc tree 0 stream"
    using blocks_ignore_col(1) [OF False, of ev "assignment_col enc'" tree 0 stream] e by simp
  with False assms show ?thesis
    by (simp add: encode_def PVLEncoder_encode_def split: prod.splits option.splits)
qed

text \<open>Two trees without a set that are the same up to the order of sets are equal.\<close>

lemma same_list_no_set:
  "list_all2 (\<lambda>x y. same_value x y \<and> (no_set x \<longrightarrow> x = y)) xs ys \<Longrightarrow> no_set_list xs
   \<Longrightarrow> xs = ys"
  by (induction xs ys rule: list_all2_induct) simp_all

lemma same_entries_no_set:
  "list_all2 (\<lambda>p q. fst p = fst q \<and> same_value (snd p) (snd q)
      \<and> (no_set (snd p) \<longrightarrow> snd p = snd q)) b c
   \<Longrightarrow> no_set_block b \<Longrightarrow> b = c"
proof (induction b c rule: list_all2_induct)
  case Nil
  show ?case by simp
next
  case (Cons p b q c)
  then show ?case by (cases p; cases q) simp
qed

lemma same_value_no_set: "same_value v w \<Longrightarrow> no_set v \<Longrightarrow> v = w"
proof (induction rule: same_value.induct)
  case (same_refl v)
  show ?case by simp
next
  case (same_list xs ys)
  then show ?case using same_list_no_set [of xs ys] by simp
next
  case (same_set xs zs ys)
  then show ?case by simp
next
  case (same_units x y u)
  then show ?case by simp
next
  case (same_group b c)
  then show ?case using same_entries_no_set [of b c] by simp
next
  case (same_dict b c)
  then show ?case using same_entries_no_set [of b c] by simp
qed

lemma same_block_no_set:
  assumes "same_block b c" and "no_set_block b"
  shows "b = c"
proof -
  from assms(1)
  have "list_all2 (\<lambda>p q. fst p = fst q \<and> same_value (snd p) (snd q)
          \<and> (no_set (snd p) \<longrightarrow> snd p = snd q)) b c"
    unfolding same_block_def
  proof (rule list_all2_mono)
    fix p q :: "pystr \<times> pvalue"
    assume "fst p = fst q \<and> same_value (snd p) (snd q)"
    then show "fst p = fst q \<and> same_value (snd p) (snd q)
        \<and> (no_set (snd p) \<longrightarrow> snd p = snd q)"
      using same_value_no_set [of "snd p" "snd q"] by blast
  qed
  then show ?thesis using assms(2) by (rule same_entries_no_set)
qed

lemma same_block_refl: "same_block b b"
  unfolding same_block_def by (rule list_all2_refl) (simp add: same_refl)

text \<open>
  Claim C10. Let a tree hold no set, and let two calls of \<open>encode\<close> be given that tree (the
  same up to the order in which sets are iterated, which for a tree without sets is the same
  tree), with encoders of the same class. Then both calls leave the same bytes on streams
  that were equal before, and raise the same exception or none.
\<close>

theorem encode_deterministic_without_sets:
  assumes "no_set_block tree"
    and "same_block tree tree'"
    and "cls enc = cls enc'"
  shows "snd (encode ev enc tree stream) = snd (encode ev enc' tree' stream)"
proof -
  from assms(2,1) have "tree = tree'" by (rule same_block_no_set)
  with encode_same_class [OF assms(3), of ev tree stream] show ?thesis by simp
qed

text \<open>
  The theorem at a module with a list and a group, for a new \<open>PDSLabelEncoder\<close> and one that
  holds the column of an earlier call.
\<close>

theorem encode_deterministic_without_sets_witness:
  "no_set_block [(ascii ''A'', VList [VInt 1, VNone]), (ascii ''G'', VGroup [(ascii ''B'', VInt 2)])]
   \<and> same_block
       [(ascii ''A'', VList [VInt 1, VNone]), (ascii ''G'', VGroup [(ascii ''B'', VInt 2)])]
       [(ascii ''A'', VList [VInt 1, VNone]), (ascii ''G'', VGroup [(ascii ''B'', VInt 2)])]
   \<and> cls (new_encoder PDSLabelEncoder) = cls \<lparr>cls = PDSLabelEncoder, assignment_col = Some 40\<rparr>
   \<and> snd (encode plain_env (new_encoder PDSLabelEncoder)
         [(ascii ''A'', VList [VInt 1, VNone]), (ascii ''G'', VGroup [(ascii ''B'', VInt 2)])] [])
     = snd (encode plain_env \<lparr>cls = PDSLabelEncoder, assignment_col = Some 40\<rparr>
         [(ascii ''A'', VList [VInt 1, VNone]), (ascii ''G'', VGroup [(ascii ''B'', VInt 2)])] [])"
proof -
  let ?tree = "[(ascii ''A'', VList [VInt 1, VNone]), (ascii ''G'', VGroup [(ascii ''B'', VInt 2)])]"
  have h1: "no_set_block ?tree" by simp
  have h2: "same_block ?tree ?tree" by (rule same_block_refl)
  have h3: "cls (new_encoder PDSLabelEncoder)
            = cls \<lparr>cls = PDSLabelEncoder, assignment_col = Some 40\<rparr>"
    by (simp add: new_encoder_def)
  note h4 = encode_deterministic_without_sets [OF h1 h2 h3, of plain_env "[]"]
  show ?thesis
    by (intro conjI) (rule h1, rule h2, rule h3, rule h4)
qed

text \<open>
  The restriction to trees without sets is needed: the two orders of the set \<open>{1, 2}\<close> are the
  same value up to the order of iteration, and are encoded differently.
\<close>

lemma set_order_changes_bytes:
  "same_value (VSet [VInt 1, VInt 2]) (VSet [VInt 2, VInt 1])
   \<and> encode_value ev (VSet [VInt 1, VInt 2]) = Inr ''{1, 2}''
   \<and> encode_value ev (VSet [VInt 2, VInt 1]) = Inr ''{2, 1}''"
proof (intro conjI)
  have "list_all2 same_value [VInt 1, VInt 2] [VInt 1, VInt 2]"
    by (simp add: same_refl)
  moreover have "mset [VInt 1, VInt 2] = mset [VInt 2, VInt 1]" by simp
  ultimately show "same_value (VSet [VInt 1, VInt 2]) (VSet [VInt 2, VInt 1])"
    by (rule same_set)
qed (simp_all add: value_simps value_defs)

subsection \<open>The assignment column\<close>

text \<open>
  Claim C2 as it is stated: the column is the greatest candidate of the tree, and every line
  pads its indented key to that column. Three trees under \<open>PDSLabelEncoder\<close> show where it
  fails. For \<open>{"X": Group({"B": 2})}\<close> the greatest candidate is 3, and the tokens \<open>GROUP\<close> and
  \<open>END\<close> are no candidates: the begin line is \<open>GROUP = X\<close>, with the assignment token after
  five bytes, while it is after three bytes in the other lines. For
  \<open>{"A": 1, "G": Group({})}\<close> the greatest candidate is 1, yet \<open>max\<close> of the empty group raises
  \<open>ValueError\<close> and nothing is written. For the key of two letters \<open>e\<close> with an acute accent
  beside the key \<open>abc\<close> the greatest candidate is 3, counted in characters, and the first key
  is four bytes long: its line is not padded, and its assignment token starts one byte later
  than that of the second line.
\<close>

theorem pds_column_counterexample:
  "spec_column [(ascii ''X'', VGroup [(ascii ''B'', VInt 2)])] = 3
   \<and> encode plain_env (new_encoder PDSLabelEncoder)
       [(ascii ''X'', VGroup [(ascii ''B'', VInt 2)])] []
     = (\<lparr>cls = PDSLabelEncoder, assignment_col = Some 3\<rparr>,
        ''GROUP = X\<newline>  B = 2\<newline>END = X\<newline>END'', None)
   \<and> spec_column [(ascii ''A'', VInt 1), (ascii ''G'', VGroup [])] = 1
   \<and> encode plain_env (new_encoder PDSLabelEncoder)
       [(ascii ''A'', VInt 1), (ascii ''G'', VGroup [])] []
     = (new_encoder PDSLabelEncoder, [], Some ValueError)
   \<and> spec_column [([233, 233], VInt 1), (ascii ''abc'', VInt 2)] = 3
   \<and> encode plain_env (new_encoder PDSLabelEncoder)
       [([233, 233], VInt 1), (ascii ''abc'', VInt 2)] []
     = (\<lparr>cls = PDSLabelEncoder, assignment_col = Some 3\<rparr>,
        map char_of [0xC3, 0xA9, 0xC3, 0xA9 :: nat] @ '' = 1\<newline>abc = 2\<newline>END'', None)"
proof (intro conjI)
  show "spec_column [(ascii ''X'', VGroup [(ascii ''B'', VInt 2)])] = 3"
    by (simp add: spec_column_def length_ascii indentation_def)
  show "encode plain_env (new_encoder PDSLabelEncoder)
       [(ascii ''X'', VGroup [(ascii ''B'', VInt 2)])] []
     = (\<lparr>cls = PDSLabelEncoder, assignment_col = Some 3\<rparr>,
        ''GROUP = X\<newline>  B = 2\<newline>END = X\<newline>END'', None)"
    by (simp add: encode_defs column_simps block_simps value_simps line_defs value_defs
        utf8_encode_ascii length_ascii)
  show "spec_column [(ascii ''A'', VInt 1), (ascii ''G'', VGroup [])] = 1"
    by (simp add: spec_column_def length_ascii indentation_def)
  show "encode plain_env (new_encoder PDSLabelEncoder)
       [(ascii ''A'', VInt 1), (ascii ''G'', VGroup [])] []
     = (new_encoder PDSLabelEncoder, [], Some ValueError)"
    by (simp add: encode_defs column_simps length_ascii)
  show "spec_column [([233, 233], VInt 1), (ascii ''abc'', VInt 2)] = 3"
    by (simp add: spec_column_def length_ascii indentation_def)
  show "encode plain_env (new_encoder PDSLabelEncoder)
       [([233, 233], VInt 1), (ascii ''abc'', VInt 2)] []
     = (\<lparr>cls = PDSLabelEncoder, assignment_col = Some 3\<rparr>,
        map char_of [0xC3, 0xA9, 0xC3, 0xA9 :: nat] @ '' = 1\<newline>abc = 2\<newline>END'', None)"
    by (simp add: encode_defs column_simps block_simps value_simps line_defs value_defs
        utf8_encode_ascii length_ascii utf8_char_def)
qed

text \<open>
  Claim C2, amended. Under \<open>PDSLabelEncoder\<close>, \<open>encode\<close> first looks for the column, before
  anything is written. When the tree, or a group or a mapping in it, is empty, it raises
  \<open>ValueError\<close> and writes nothing. Otherwise the column is the greatest of the candidates of
  the specification, no candidate is greater, and \<open>encode\<close> is the method of the base class run
  with that one column. When \<open>encode\<close> then raises nothing, every entry of the tree at any
  depth has its line in the output, at the start of a line: for an entry that is no group and
  no object, the key after the indentation of its depth, padded by \<open>ljust\<close> to the column, then
  the assignment token, the value and a line break; and when the key has as many bytes as
  characters, the padded key is exactly as wide as the column, so that the assignment token
  starts right after the column. For a group or an object the begin line and the close line
  are laid out in the same way, with the begin token or the end token in the place of the
  key. \<open>ljust\<close> never shortens: a token or a key that is longer than the column after its
  indentation is written whole, and its assignment token starts later. For
  \<open>{"A": 1, "LONGKEY": 2}\<close> the column is the length of \<open>LONGKEY\<close>, and in both lines the
  assignment token starts after seven bytes.
\<close>

theorem pds_assignment_column:
  assumes "cls enc = PDSLabelEncoder"
  shows "encode ev enc tree stream
           = (if mappings_nonempty tree
              then PVLEncoder_encode ev (enc\<lparr>assignment_col := Some (spec_column tree)\<rparr>)
                     tree stream
              else (enc, stream, Some ValueError))
       \<and> (\<forall>c\<in>set (spec_candidates 0 tree). c \<le> spec_column tree)
       \<and> (encode ev enc tree stream = (enc', out, None) \<and> entry_at tree d key val
            \<and> \<not> is_dict val \<longrightarrow>
           (\<exists>front kb vb after.
               utf8_encode key = Inr kb \<and> encode_value ev val = Inr vb
             \<and> out = front @ ljust (spec_column tree) (repeat d indentation @ kb)
                      @ assignment @ vb @ newline @ after
             \<and> (front = stream \<or> (\<exists>f. front = stream @ f @ newline))
             \<and> (length kb = length key \<longrightarrow>
                  length (ljust (spec_column tree) (repeat d indentation @ kb))
                  = spec_column tree)))
       \<and> (encode ev enc tree stream = (enc', out, None) \<and> entry_at tree gd gkey gval
            \<and> is_dict gval \<longrightarrow>
           (\<exists>front name body after.
               utf8_encode gkey = Inr name
             \<and> encode_block ev enc' (entries gval) (gd + 1) [] = (body, None)
             \<and> out = front
                 @ ljust (spec_column tree)
                     (repeat gd indentation
                      @ (if is_PVLGroup gval then group PDSLabelEncoder
                         else object PDSLabelEncoder))
                 @ assignment @ name @ newline
                 @ body
                 @ ljust (spec_column tree)
                     (repeat gd indentation
                      @ (if is_PVLGroup gval then end_group PDSLabelEncoder
                         else end_object PDSLabelEncoder))
                 @ assignment @ name @ newline
                 @ after
             \<and> (front = stream \<or> (\<exists>f. front = stream @ f @ newline))))
       \<and> encode ev (new_encoder PDSLabelEncoder)
           [(ascii ''A'', VInt 1), (ascii ''LONGKEY'', VInt 2)] stream
           = (\<lparr>cls = PDSLabelEncoder, assignment_col = Some (length ''LONGKEY'')\<rparr>,
              stream @ ''A       = 1\<newline>LONGKEY = 2\<newline>END'', None)"
proof (intro conjI impI)
  show "encode ev enc tree stream
           = (if mappings_nonempty tree
              then PVLEncoder_encode ev (enc\<lparr>assignment_col := Some (spec_column tree)\<rparr>)
                     tree stream
              else (enc, stream, Some ValueError))"
    using assms by (simp add: encode_def PDSLabelEncoder_encode_def detect_total)
  show "\<forall>c\<in>set (spec_candidates 0 tree). c \<le> spec_column tree"
    by (simp add: spec_column_def)
  show "\<exists>front kb vb after.
               utf8_encode key = Inr kb \<and> encode_value ev val = Inr vb
             \<and> out = front @ ljust (spec_column tree) (repeat d indentation @ kb)
                      @ assignment @ vb @ newline @ after
             \<and> (front = stream \<or> (\<exists>f. front = stream @ f @ newline))
             \<and> (length kb = length key \<longrightarrow>
                  length (ljust (spec_column tree) (repeat d indentation @ kb))
                  = spec_column tree)"
    if h: "encode ev enc tree stream = (enc', out, None) \<and> entry_at tree d key val
            \<and> \<not> is_dict val"
  proof -
    let ?col = "spec_column tree"
    from h have e: "encode ev enc tree stream = (enc', out, None)"
      and en: "entry_at tree d key val" and nd: "\<not> is_dict val" by simp_all
    from encode_success [OF e] assms
    have enc': "enc' = enc\<lparr>assignment_col := Some ?col\<rparr>" by simp
    from assignment_entry_written [OF e en nd] obtain front kb vb after where
      kb: "utf8_encode key = Inr kb" and vb: "encode_value ev val = Inr vb"
      and o: "out = front @ spec_key_slot enc' d kb @ assignment @ vb @ newline @ after"
      and f: "front = stream \<or> (\<exists>f. front = stream @ f @ newline)"
      by blast
    from enc' assms have slot: "spec_key_slot enc' d kb = ljust ?col (repeat d indentation @ kb)"
      by (simp add: pds_key_slot)
    have w: "out = front @ ljust ?col (repeat d indentation @ kb) @ assignment @ vb @ newline
        @ after"
      using o slot by simp
    have l: "length kb = length key \<longrightarrow>
        length (ljust ?col (repeat d indentation @ kb)) = ?col"
    proof
      assume "length kb = length key"
      moreover from entry_candidate [OF en, of 0]
      have "d * length indentation + length key \<le> ?col"
        by (simp add: spec_column_def)
      ultimately have "length (repeat d indentation @ kb) \<le> ?col"
        by (simp add: length_repeat_indentation)
      then show "length (ljust ?col (repeat d indentation @ kb)) = ?col"
        by (rule length_ljust)
    qed
    show ?thesis
      apply (rule exI [of _ front])
      apply (rule exI [of _ kb])
      apply (rule exI [of _ vb])
      apply (rule exI [of _ after])
      apply (intro conjI)
          apply (rule kb)
         apply (rule vb)
        apply (rule w)
       apply (rule f)
      apply (rule l)
      done
  qed
  show "\<exists>front name body after.
               utf8_encode gkey = Inr name
             \<and> encode_block ev enc' (entries gval) (gd + 1) [] = (body, None)
             \<and> out = front
                 @ ljust (spec_column tree)
                     (repeat gd indentation
                      @ (if is_PVLGroup gval then group PDSLabelEncoder
                         else object PDSLabelEncoder))
                 @ assignment @ name @ newline
                 @ body
                 @ ljust (spec_column tree)
                     (repeat gd indentation
                      @ (if is_PVLGroup gval then end_group PDSLabelEncoder
                         else end_object PDSLabelEncoder))
                 @ assignment @ name @ newline
                 @ after
             \<and> (front = stream \<or> (\<exists>f. front = stream @ f @ newline))"
    if h: "encode ev enc tree stream = (enc', out, None) \<and> entry_at tree gd gkey gval
            \<and> is_dict gval"
  proof -
    let ?col = "spec_column tree"
    from h have e: "encode ev enc tree stream = (enc', out, None)"
      and en: "entry_at tree gd gkey gval" and d: "is_dict gval" by simp_all
    from encode_success [OF e] assms
    have enc': "enc' = enc\<lparr>assignment_col := Some ?col\<rparr>" by simp
    from dict_entry_written [OF e en d] obtain front name body after where
      n: "utf8_encode gkey = Inr name"
      and bd: "encode_block ev enc' (entries gval) (gd + 1) [] = (body, None)"
      and o: "out = front @ spec_begin_line enc' gval name gd @ body
                @ spec_close_line enc' gval name gd @ after"
      and f: "front = stream \<or> (\<exists>f. front = stream @ f @ newline)"
      by blast
    from enc' assms have bl: "spec_begin_line enc' gval name gd
        = ljust ?col (repeat gd indentation
            @ (if is_PVLGroup gval then group PDSLabelEncoder else object PDSLabelEncoder))
          @ assignment @ name @ newline"
      by (simp add: spec_begin_line_def pds_key_slot)
    from enc' assms have cl: "spec_close_line enc' gval name gd
        = ljust ?col (repeat gd indentation
            @ (if is_PVLGroup gval then end_group PDSLabelEncoder
               else end_object PDSLabelEncoder))
          @ assignment @ name @ newline"
      by (simp add: spec_close_line_def pds_key_slot)
    have w: "out = front
                 @ ljust (spec_column tree)
                     (repeat gd indentation
                      @ (if is_PVLGroup gval then group PDSLabelEncoder
                         else object PDSLabelEncoder))
                 @ assignment @ name @ newline
                 @ body
                 @ ljust (spec_column tree)
                     (repeat gd indentation
                      @ (if is_PVLGroup gval then end_group PDSLabelEncoder
                         else end_object PDSLabelEncoder))
                 @ assignment @ name @ newline
                 @ after"
      using o by (simp only: bl cl append_assoc)
    show ?thesis
      apply (rule exI [of _ front])
      apply (rule exI [of _ name])
      apply (rule exI [of _ body])
      apply (rule exI [of _ after])
      apply (intro conjI)
         apply (rule n)
        apply (rule bd)
       apply (rule w)
      apply (rule f)
      done
  qed
  show "encode ev (new_encoder PDSLabelEncoder)
          [(ascii ''A'', VInt 1), (ascii ''LONGKEY'', VInt 2)] stream
        = (\<lparr>cls = PDSLabelEncoder, assignment_col = Some (length ''LONGKEY'')\<rparr>,
           stream @ ''A       = 1\<newline>LONGKEY = 2\<newline>END'', None)"
    by (simp add: encode_defs column_simps block_simps value_simps line_defs value_defs
        utf8_encode_ascii length_ascii)
qed

text \<open>
  The theorem at the module \<open>{"A": 1, "G": Group({"LONG": 2})}\<close>, whose column is 6: the line
  of \<open>LONG\<close>, at depth 1, and the begin and close lines of \<open>G\<close>, at depth 0, all have the
  assignment token after six bytes.
\<close>

theorem pds_assignment_column_witness:
  "cls (new_encoder PDSLabelEncoder) = PDSLabelEncoder
   \<and> mappings_nonempty [(ascii ''A'', VInt 1), (ascii ''G'', VGroup [(ascii ''LONG'', VInt 2)])]
   \<and> spec_column [(ascii ''A'', VInt 1), (ascii ''G'', VGroup [(ascii ''LONG'', VInt 2)])] = 6
   \<and> entry_at [(ascii ''A'', VInt 1), (ascii ''G'', VGroup [(ascii ''LONG'', VInt 2)])]
        1 (ascii ''LONG'') (VInt 2)
   \<and> entry_at [(ascii ''A'', VInt 1), (ascii ''G'', VGroup [(ascii ''LONG'', VInt 2)])]
        0 (ascii ''G'') (VGroup [(ascii ''LONG'', VInt 2)])
   \<and> encode plain_env (new_encoder PDSLabelEncoder)
        [(ascii ''A'', VInt 1), (ascii ''G'', VGroup [(ascii ''LONG'', VInt 2)])] []
      = (\<lparr>cls = PDSLabelEncoder, assignment_col = Some 6\<rparr>,
         ''A      = 1\<newline>GROUP  = G\<newline>  LONG = 2\<newline>END    = G\<newline>END'', None)
   \<and> (\<exists>front after.
         ''A      = 1\<newline>GROUP  = G\<newline>  LONG = 2\<newline>END    = G\<newline>END''
         = front @ ljust (spec_column [(ascii ''A'', VInt 1),
                            (ascii ''G'', VGroup [(ascii ''LONG'', VInt 2)])])
                     (repeat 1 indentation @ ''LONG'')
           @ assignment @ ''2'' @ newline @ after
       \<and> (front = [] \<or> (\<exists>f. front = [] @ f @ newline)))
   \<and> length (ljust (spec_column [(ascii ''A'', VInt 1),
                       (ascii ''G'', VGroup [(ascii ''LONG'', VInt 2)])])
               (repeat 1 indentation @ ''LONG''))
     = spec_column [(ascii ''A'', VInt 1), (ascii ''G'', VGroup [(ascii ''LONG'', VInt 2)])]
   \<and> (\<exists>front body after.
         ''A      = 1\<newline>GROUP  = G\<newline>  LONG = 2\<newline>END    = G\<newline>END''
         = front
           @ ljust (spec_column [(ascii ''A'', VInt 1),
                      (ascii ''G'', VGroup [(ascii ''LONG'', VInt 2)])])
               (repeat 0 indentation @ ''GROUP'')
           @ assignment @ ''G'' @ newline
           @ body
           @ ljust (spec_column [(ascii ''A'', VInt 1),
                      (ascii ''G'', VGroup [(ascii ''LONG'', VInt 2)])])
               (repeat 0 indentation @ ''END'')
           @ assignment @ ''G'' @ newline
           @ after)"
proof -
  let ?g = "VGroup [(ascii ''LONG'', VInt 2)]"
  let ?t = "[(ascii ''A'', VInt 1), (ascii ''G'', ?g)]"
  let ?enc' = "\<lparr>cls = PDSLabelEncoder, assignment_col = Some 6\<rparr>"
  let ?out = "''A      = 1\<newline>GROUP  = G\<newline>  LONG = 2\<newline>END    = G\<newline>END''"
  have c: "cls (new_encoder PDSLabelEncoder) = PDSLabelEncoder"
    by (simp add: new_encoder_def)
  have m: "mappings_nonempty ?t"
    by (simp add: mappings_nonempty_def)
  have col: "spec_column ?t = 6"
    by (simp add: spec_column_def length_ascii indentation_def)
  have "entry_at (entries ?g) 0 (ascii ''LONG'') (VInt 2)"
    using entry_here [of "[]" "ascii ''LONG''" "VInt 2" "[]"] by simp
  then have en: "entry_at ?t 1 (ascii ''LONG'') (VInt 2)"
    using entry_inside [of ?g 0 "ascii ''LONG''" "VInt 2" "[(ascii ''A'', VInt 1)]"
        "ascii ''G''" "[]"]
    by simp
  have eg: "entry_at ?t 0 (ascii ''G'') ?g"
    using entry_here [of "[(ascii ''A'', VInt 1)]" "ascii ''G''" ?g "[]"] by simp
  have e: "encode plain_env (new_encoder PDSLabelEncoder) ?t [] = (?enc', ?out, None)"
    by (simp add: encode_defs column_simps block_simps value_simps line_defs value_defs
        utf8_encode_ascii length_ascii)
  have nd: "\<not> is_dict (VInt 2)" by simp
  have dg: "is_dict ?g" by simp
  note t = pds_assignment_column [OF c, where tree = ?t and ev = plain_env and stream = "[]"
      and enc' = ?enc' and out = ?out and d = 1 and key = "ascii ''LONG''" and val = "VInt 2"
      and gd = 0 and gkey = "ascii ''G''" and gval = ?g]
  from t e en nd obtain front kb vb after where
    kb: "utf8_encode (ascii ''LONG'') = Inr kb"
    and vb: "encode_value plain_env (VInt 2) = Inr vb"
    and w: "?out = front @ ljust (spec_column ?t) (repeat 1 indentation @ kb)
              @ assignment @ vb @ newline @ after"
    and f: "front = [] \<or> (\<exists>f. front = [] @ f @ newline)"
    and l: "length kb = length (ascii ''LONG'') \<longrightarrow>
              length (ljust (spec_column ?t) (repeat 1 indentation @ kb)) = spec_column ?t"
    by blast
  from kb have kb': "kb = ''LONG''" by (simp add: utf8_encode_ascii)
  from vb have vb': "vb = ''2''" by (simp add: value_simps value_defs)
  have x1: "\<exists>front after.
         ?out = front @ ljust (spec_column ?t) (repeat 1 indentation @ ''LONG'')
           @ assignment @ ''2'' @ newline @ after
       \<and> (front = [] \<or> (\<exists>f. front = [] @ f @ newline))"
    apply (rule exI [of _ front])
    apply (rule exI [of _ after])
    apply (intro conjI)
     apply (rule w [unfolded kb' vb'])
    apply (rule f)
    done
  from l kb' have x2: "length (ljust (spec_column ?t) (repeat 1 indentation @ ''LONG''))
      = spec_column ?t"
    by (simp add: length_ascii)
  from t e eg dg obtain gfront name body gafter where
    n: "utf8_encode (ascii ''G'') = Inr name"
    and gw: "?out = gfront
           @ ljust (spec_column ?t)
               (repeat 0 indentation
                @ (if is_PVLGroup ?g then group PDSLabelEncoder else object PDSLabelEncoder))
           @ assignment @ name @ newline
           @ body
           @ ljust (spec_column ?t)
               (repeat 0 indentation
                @ (if is_PVLGroup ?g then end_group PDSLabelEncoder
                   else end_object PDSLabelEncoder))
           @ assignment @ name @ newline
           @ gafter"
    by blast
  from n have name: "name = ''G''" by (simp add: utf8_encode_ascii)
  have tok: "(if is_PVLGroup ?g then group PDSLabelEncoder else object PDSLabelEncoder)
      = ''GROUP''"
    "(if is_PVLGroup ?g then end_group PDSLabelEncoder else end_object PDSLabelEncoder)
      = ''END''"
    by simp_all
  have x3: "\<exists>front body after.
         ?out = front
           @ ljust (spec_column ?t) (repeat 0 indentation @ ''GROUP'')
           @ assignment @ ''G'' @ newline
           @ body
           @ ljust (spec_column ?t) (repeat 0 indentation @ ''END'')
           @ assignment @ ''G'' @ newline
           @ after"
    apply (rule exI [of _ gfront])
    apply (rule exI [of _ body])
    apply (rule exI [of _ gafter])
    apply (rule gw [unfolded name tok])
    done
  show ?thesis
    by (intro conjI) (rule c, rule m, rule col, rule en, rule eg, rule e, rule x1, rule x2, rule x3)
qed

subsection \<open>The driver and the exceptions of the encoder\<close>

text \<open>
  What \<open>pvl_flavor\<close> returns: \<open>(False, None)\<close> when loading raises \<open>LexerError\<close> or
  \<open>ParseError\<close>, \<open>(True, True)\<close> when both calls return, \<open>(True, False)\<close> when encoding raises
  one of the three exceptions of the inner handler, as the \<open>ValueError\<close> of
  \<open>PDSLabelEncoder\<close> on an empty module; a \<open>TypeError\<close> of encoding is not caught.
\<close>

lemma pvl_flavor_outcomes:
  "loads d text = Inl LexerError \<or> loads d text = Inl ParseError
     \<Longrightarrow> pvl_flavor text d = Inr (Some False, None)"
  "loads d text = Inr m \<Longrightarrow> dumps d m = Inr b \<Longrightarrow> pvl_flavor text d = Inr (Some True, Some True)"
  "loads d text = Inr m \<Longrightarrow> dumps d m = Inl e \<Longrightarrow>
     e = LexerError \<or> e = ParseError \<or> is_ValueError e
     \<Longrightarrow> pvl_flavor text d = Inr (Some True, Some False)"
  "loads d text = Inr m \<Longrightarrow> dumps d m = Inl (TypeError msg)
     \<Longrightarrow> pvl_flavor text d = Inl (TypeError msg)"
  by (auto simp: pvl_flavor_def)

lemma value_error_of_encoder_is_recorded:
  "pvl_flavor text
     \<lparr>loads = (\<lambda>_. Inr []), dumps = dumps_with plain_env (new_encoder PDSLabelEncoder)\<rparr>
   = Inr (Some True, Some False)"
  by (simp add: pvl_flavor_def dumps_with_def encode_defs column_simps)

text \<open>
  Claim C5. The claim is that for every file and every profile a pair of outcomes is
  recorded and the run goes on, whatever the encoder raises. When the decoded module holds a
  value that the encoder does not know, the encoder raises the \<open>TypeError\<close> of \<open>default\<close>, which
  neither handler of \<open>pvl_flavor\<close> catches: \<open>pvl_flavor\<close> returns no pair, and \<open>main\<close> ends
  with that exception at the first profile of the first file, with no result for the second
  profile or the second file.
\<close>

theorem type_error_of_encoder_ends_main:
  "pvl_flavor text
     \<lparr>loads = (\<lambda>_. Inr [(ascii ''A'', VOther ''date'')]),
      dumps = dumps_with plain_env (new_encoder PVLEncoder)\<rparr>
   = Inl (TypeError (ascii ''<object> is not serializable''))
   \<and> main
       [(''PVL'', \<lparr>loads = (\<lambda>_. Inr [(ascii ''A'', VOther ''date'')]),
                  dumps = dumps_with plain_env (new_encoder PVLEncoder)\<rparr>),
        (''Omni'', \<lparr>loads = (\<lambda>_. Inr []),
                   dumps = dumps_with plain_env (new_encoder PVLEncoder)\<rparr>)]
       [(''one.lbl'', text), (''two.lbl'', text2)]
     = Inl (TypeError (ascii ''<object> is not serializable''))"
proof -
  have "repr plain_env (VOther ''date'') @ ascii '' is not serializable''
          = ascii ''<object> is not serializable''"
    by (simp add: plain_env_def ascii_def)
  then have d: "dumps_with plain_env (new_encoder PVLEncoder) [(ascii ''A'', VOther ''date'')]
      = Inl (TypeError (ascii ''<object> is not serializable''))"
    by (simp add: dumps_with_def encode_defs block_simps encode_assignment_def
        utf8_encode_ascii encode_value_other)
  then show ?thesis by (simp add: pvl_flavor_def)
qed

end
